theory Spec2Isabelle
  imports Main "HOL-Library.Word"
begin

unbundle bit_operations_syntax

section \<open>The OSS backend of cubeb: data model\<close>

text \<open>
  The development embeds \<^verbatim>\<open>src/cubeb_oss.c\<close>. C integers are modelled as \<open>int\<close> and
  \<open>nat\<close> with the conversions between the C types written out (\<open>mod 2 ^ 32\<close> for
  \<open>unsigned int\<close>, \<open>mod 2 ^ 64\<close> for \<open>size_t\<close> and \<open>uint64_t\<close>; the target is LP64, so a
  \<open>long\<close> holds every \<open>unsigned int\<close>). Sample buffers are byte lists; a C \<open>float\<close> is
  the 32-bit pattern that holds it, and the arithmetic of the floating-point unit is a
  parameter of every function that computes with it; the unit of the target, with IEEE 754
  arithmetic, is defined in a section of its own. Calls into the system (devices,
  allocation, threads) are answered by an environment and leave an \<open>event\<close> in a trace.
\<close>

type_synonym byte = "8 word"
type_synonym float32 = "32 word"
type_synonym float64 = "64 word"

datatype cubeb_state =
  CUBEB_STATE_STARTED | CUBEB_STATE_STOPPED | CUBEB_STATE_DRAINED | CUBEB_STATE_ERROR

text \<open>
  Modelled from the spec: the result codes of \<^verbatim>\<open>cubeb/cubeb.h\<close>, a header that is not
  among the sources. Section 7 of the specification names the error kinds (generic error,
  unsupported format, unsupported feature, device unavailable); OK is zero and the errors are
  distinct negative numbers, the generic error being the sentinel a data callback returns.
\<close>

definition CUBEB_OK :: int where "CUBEB_OK = 0"
definition CUBEB_ERROR :: int where "CUBEB_ERROR = - 1"
definition CUBEB_ERROR_INVALID_FORMAT :: int where "CUBEB_ERROR_INVALID_FORMAT = - 2"
definition CUBEB_ERROR_NOT_SUPPORTED :: int where "CUBEB_ERROR_NOT_SUPPORTED = - 4"
definition CUBEB_ERROR_DEVICE_UNAVAILABLE :: int where "CUBEB_ERROR_DEVICE_UNAVAILABLE = - 5"

definition OSS_DEFAULT_NFRAMES :: nat where "OSS_DEFAULT_NFRAMES = 32"
definition OSS_DEFAULT_DEVICE :: string where "OSS_DEFAULT_DEVICE = ''/dev/dsp''"

text \<open>Conversions to \<^verbatim>\<open>int\<close> and to \<^verbatim>\<open>unsigned int\<close>, both of 32 bits.\<close>

definition to_int32 :: "int \<Rightarrow> int" where
  "to_int32 x = sint (word_of_int x :: 32 word)"

definition to_uint32 :: "int \<Rightarrow> nat" where
  "to_uint32 x = nat (x mod 2 ^ 32)"

text \<open>Conversion to \<^verbatim>\<open>size_t\<close> and to \<^verbatim>\<open>uint64_t\<close>, both of 64 bits.\<close>

definition to_uint64 :: "int \<Rightarrow> nat" where
  "to_uint64 x = nat (x mod 2 ^ 64)"

text \<open>The memory objects a stream owns, and the calls into the system that a trace records.\<close>

datatype obj = ObjStream | ObjPlayBuf | ObjRecordBuf

datatype event =
    MutexInit | MutexDestroy | MutexLock | MutexUnlock
  | ThreadCreate nat | ThreadJoin "nat option"
  | DevOpen int | DevClose int
  | Alloc obj | Free obj | FreeNull
  | StateCb cubeb_state
  | DataCb "byte list option" nat
  | DevWrite int "byte list" | DevWriteErr int
  | DevRead int "byte list" | DevReadErr int

text \<open>What the model cannot continue from: the C program's behaviour is undefined there.\<close>

datatype trap = DivByZero | OutOfBounds | NullBuffer

record stream_info =
  channels :: int
  sample_rate :: int
  fmt :: int
  precision :: int

text \<open>\<^verbatim>\<open>struct oss_stream\<close>; \<open>buf\<close> is \<open>None\<close> for a null pointer.\<close>

record oss_stream =
  name :: string
  fd :: int
  buf :: "byte list option"
  info :: stream_info
  frame_size :: nat
  floating :: bool

text \<open>
  \<^verbatim>\<open>struct cubeb_stream\<close>. The field \<^verbatim>\<open>record\<close> is \<open>rec_strm\<close> here. \<open>thread\<close> is \<open>None\<close>
  until a thread has been created. The callbacks and the mutex are not fields: the
  callbacks belong to the environment, the mutex shows in the trace.
\<close>

record cubeb_stream =
  thread :: "nat option"
  running :: bool
  volume :: float32
  play :: oss_stream
  rec_strm :: oss_stream
  frames_written :: nat
  blocks_written :: nat
  nfr :: nat

section \<open>Stream control: stop, destroy, start\<close>

text \<open>
  What the I/O thread has done to the stream by the time it is joined. The thread writes
  the frame counter and the two sample buffers and nothing else (\<^verbatim>\<open>oss_io_routine\<close>).
\<close>

record thread_effect =
  te_frames_written :: nat
  te_play_buf :: "byte list option"
  te_record_buf :: "byte list option"

definition pthread_join :: "thread_effect \<Rightarrow> cubeb_stream \<Rightarrow> cubeb_stream" where
  "pthread_join te s =
     s\<lparr>frames_written := te_frames_written te,
       play := (play s)\<lparr>buf := te_play_buf te\<rparr>,
       rec_strm := (rec_strm s)\<lparr>buf := te_record_buf te\<rparr>\<rparr>"

text \<open>\<^verbatim>\<open>oss_stream_stop\<close> (lines 536-548): the result code, the stream and the calls made.\<close>

definition oss_stream_stop ::
  "thread_effect \<Rightarrow> cubeb_stream \<Rightarrow> int \<times> cubeb_stream \<times> event list" where
  "oss_stream_stop te s =
     (if running s
      then (CUBEB_OK, pthread_join te (s\<lparr>running := False\<rparr>),
            [MutexLock, MutexUnlock, ThreadJoin (thread s)])
      else (CUBEB_OK, s, [MutexLock, MutexUnlock]))"

text \<open>
  \<^verbatim>\<open>oss_stream_destroy\<close> (lines 550-564): the calls made, in order. The stream itself is
  freed last, so there is no stream to return.
\<close>

definition oss_stream_destroy :: "thread_effect \<Rightarrow> cubeb_stream \<Rightarrow> event list" where
  "oss_stream_destroy te s =
     (case oss_stream_stop te s of
        (r, s1, stop_events) \<Rightarrow>
          [MutexDestroy] @ stop_events
          @ (if fd (play s1) \<noteq> - 1 then [DevClose (fd (play s1))] else [])
          @ (if fd (rec_strm s1) \<noteq> - 1 then [DevClose (fd (rec_strm s1))] else [])
          @ [case buf (play s1) of None \<Rightarrow> FreeNull | Some b \<Rightarrow> Free ObjPlayBuf]
          @ [case buf (rec_strm s1) of None \<Rightarrow> FreeNull | Some b \<Rightarrow> Free ObjRecordBuf]
          @ [Free ObjStream])"

text \<open>
  \<^verbatim>\<open>oss_stream_start\<close> (lines 854-863). The first argument is the answer of
  \<^verbatim>\<open>pthread_create\<close>: the new thread, or \<open>None\<close> when it fails.
\<close>

definition oss_stream_start ::
  "nat option \<Rightarrow> cubeb_stream \<Rightarrow> int \<times> cubeb_stream \<times> event list" where
  "oss_stream_start created s =
     (let s1 = s\<lparr>running := True\<rparr>
      in case created of
           None \<Rightarrow> (CUBEB_ERROR, s1, [])
         | Some t \<Rightarrow> (CUBEB_OK, s1\<lparr>thread := Some t\<rparr>, [ThreadCreate t]))"

section \<open>Sample conversion\<close>

text \<open>
  The floating-point unit. \<open>float32\<close> and \<open>float64\<close> are the bit patterns of a C \<open>float\<close>
  and \<open>double\<close>; the operations are the ones the three converters use: multiplication and
  division, the conversions from the integer types, the conversions to \<^verbatim>\<open>int64_t\<close> and
  \<^verbatim>\<open>int32_t\<close> (whatever the target yields, also out of range), and the narrowing of a
  \<open>double\<close> to a \<open>float\<close>.
\<close>

record fpu =
  f_mul :: "float32 \<Rightarrow> float32 \<Rightarrow> float32"
  f_of_uint :: "nat \<Rightarrow> float32"
  f_of_int :: "int \<Rightarrow> float32"
  f_to_int64 :: "float32 \<Rightarrow> 64 word"
  f_to_int32 :: "float32 \<Rightarrow> 32 word"
  d_one :: float64
  d_of_uint :: "nat \<Rightarrow> float64"
  d_of_int :: "int \<Rightarrow> float64"
  d_div :: "float64 \<Rightarrow> float64 \<Rightarrow> float64"
  d_mul :: "float64 \<Rightarrow> float64 \<Rightarrow> float64"
  f_of_d :: "float64 \<Rightarrow> float32"

definition INT32_MAX :: int where "INT32_MAX = 2147483647"

text \<open>
  One sample of \<^verbatim>\<open>oss_float_to_linear32\<close> (lines 574-579): \<open>f\<close> is the \<^verbatim>\<open>int64_t\<close> that
  \<^verbatim>\<open>*(in++) * vol * 0x80000000\<close> converts to, clamped, and stored as an \<^verbatim>\<open>int32_t\<close>.
\<close>

definition float_to_linear32_sample :: "fpu \<Rightarrow> float32 \<Rightarrow> float32 \<Rightarrow> 32 word" where
  "float_to_linear32_sample fp vol x =
     (let f = sint (f_to_int64 fp (f_mul fp (f_mul fp x vol) (f_of_uint fp 0x80000000)));
          f = (if f < - INT32_MAX then - INT32_MAX
               else if f > INT32_MAX then INT32_MAX else f)
      in word_of_int f)"

text \<open>
  The loop of \<^verbatim>\<open>oss_float_to_linear32\<close> (lines 573-580). \<open>in\<close> and \<open>out\<close> walk the same
  buffer in step, so one index \<open>i\<close> stands for both; \<open>tail\<close> is \<open>sample_count\<close>.
\<close>

function float_to_linear32_loop ::
  "fpu \<Rightarrow> float32 \<Rightarrow> nat \<Rightarrow> nat \<Rightarrow> 32 word list \<Rightarrow> 32 word list" where
  "float_to_linear32_loop fp vol tail i b =
     (if i < tail
      then float_to_linear32_loop fp vol tail (Suc i) (b[i := float_to_linear32_sample fp vol (b ! i)])
      else b)"
  by pat_completeness auto
termination
  by (relation "measure (\<lambda>(fp, vol, tail, i, b). tail - i)") auto

declare float_to_linear32_loop.simps [simp del]

text \<open>
  \<^verbatim>\<open>oss_float_to_linear32\<close> (lines 566-581) on the buffer seen as 32-bit cells. The C
  function has no bounds check: a \<open>sample_count\<close> beyond the buffer overruns it.
\<close>

definition oss_float_to_linear32 ::
  "fpu \<Rightarrow> 32 word list \<Rightarrow> nat \<Rightarrow> float32 \<Rightarrow> trap + 32 word list" where
  "oss_float_to_linear32 fp b sample_count vol =
     (if length b < sample_count then Inl OutOfBounds
      else Inr (float_to_linear32_loop fp vol sample_count 0 b))"

text \<open>One sample of \<^verbatim>\<open>oss_linear32_to_float\<close> (line 591), computed in \<open>double\<close>.\<close>

definition linear32_to_float_sample :: "fpu \<Rightarrow> 32 word \<Rightarrow> float32" where
  "linear32_to_float_sample fp x =
     f_of_d fp (d_mul fp (d_div fp (d_one fp) (d_of_uint fp 0x80000000)) (d_of_int fp (sint x)))"

function linear32_to_float_loop :: "fpu \<Rightarrow> nat \<Rightarrow> nat \<Rightarrow> 32 word list \<Rightarrow> 32 word list" where
  "linear32_to_float_loop fp tail i b =
     (if i < tail
      then linear32_to_float_loop fp tail (Suc i) (b[i := linear32_to_float_sample fp (b ! i)])
      else b)"
  by pat_completeness auto
termination
  by (relation "measure (\<lambda>(fp, tail, i, b). tail - i)") auto

declare linear32_to_float_loop.simps [simp del]

text \<open>\<^verbatim>\<open>oss_linear32_to_float\<close> (lines 583-593). It takes no volume.\<close>

definition oss_linear32_to_float :: "fpu \<Rightarrow> 32 word list \<Rightarrow> nat \<Rightarrow> trap + 32 word list" where
  "oss_linear32_to_float fp b sample_count =
     (if length b < sample_count then Inl OutOfBounds
      else Inr (linear32_to_float_loop fp sample_count 0 b))"

text \<open>
  \<^verbatim>\<open>oss_linear16_set_vol\<close> (lines 595-604). The product is an \<^verbatim>\<open>int\<close> (wrapping at 32 bits),
  the shift is arithmetic, and the store keeps the low 16 bits.
\<close>

definition linear16_set_vol_sample :: "32 word \<Rightarrow> 16 word \<Rightarrow> 16 word" where
  "linear16_set_vol_sample multiplier x =
     ucast (signed_drop_bit 15 ((scast x :: 32 word) * multiplier))"

function linear16_set_vol_loop :: "32 word \<Rightarrow> nat \<Rightarrow> nat \<Rightarrow> 16 word list \<Rightarrow> 16 word list" where
  "linear16_set_vol_loop multiplier sample_count i b =
     (if i < sample_count
      then linear16_set_vol_loop multiplier sample_count (Suc i)
             (b[i := linear16_set_vol_sample multiplier (b ! i)])
      else b)"
  by pat_completeness auto
termination
  by (relation "measure (\<lambda>(multiplier, sample_count, i, b). sample_count - i)") auto

declare linear16_set_vol_loop.simps [simp del]

definition oss_linear16_set_vol ::
  "fpu \<Rightarrow> 16 word list \<Rightarrow> nat \<Rightarrow> float32 \<Rightarrow> trap + 16 word list" where
  "oss_linear16_set_vol fp b sample_count vol =
     (let multiplier = f_to_int32 fp (f_mul fp vol (f_of_int fp 0x8000))
      in if length b < sample_count then Inl OutOfBounds
         else Inr (linear16_set_vol_loop multiplier sample_count 0 b))"

text \<open>
  A buffer is passed to the converters as \<^verbatim>\<open>void *\<close> and read there as an array of 32-bit or
  16-bit cells. The bytes of a cell are in little-endian order (the native order of the
  targets this backend is built for); bytes after the last whole cell are not part of any
  cell.
\<close>

fun cells32 :: "byte list \<Rightarrow> 32 word list" where
  "cells32 (b0 # b1 # b2 # b3 # bs) =
     (ucast b0 OR push_bit 8 (ucast b1) OR push_bit 16 (ucast b2) OR push_bit 24 (ucast b3))
     # cells32 bs"
| "cells32 bs = []"

definition bytes32 :: "32 word \<Rightarrow> byte list" where
  "bytes32 w = [ucast w, ucast (drop_bit 8 w), ucast (drop_bit 16 w), ucast (drop_bit 24 w)]"

fun cells16 :: "byte list \<Rightarrow> 16 word list" where
  "cells16 (b0 # b1 # bs) = (ucast b0 OR push_bit 8 (ucast b1)) # cells16 bs"
| "cells16 bs = []"

definition bytes16 :: "16 word \<Rightarrow> byte list" where
  "bytes16 w = [ucast w, ucast (drop_bit 8 w)]"

definition on_cells32 ::
  "(32 word list \<Rightarrow> trap + 32 word list) \<Rightarrow> byte list \<Rightarrow> trap + byte list" where
  "on_cells32 f b =
     (case f (cells32 b) of
        Inl t \<Rightarrow> Inl t
      | Inr cs \<Rightarrow> Inr (concat (map bytes32 cs) @ drop (4 * length cs) b))"

definition on_cells16 ::
  "(16 word list \<Rightarrow> trap + 16 word list) \<Rightarrow> byte list \<Rightarrow> trap + byte list" where
  "on_cells16 f b =
     (case f (cells16 b) of
        Inl t \<Rightarrow> Inl t
      | Inr cs \<Rightarrow> Inr (concat (map bytes16 cs) @ drop (2 * length cs) b))"

section \<open>The floating-point unit of the target\<close>

text \<open>
  IEEE 754 arithmetic on bit patterns: binary32 for \<^verbatim>\<open>float\<close> and binary64 for \<^verbatim>\<open>double\<close>,
  rounding to nearest with ties to even, every operation in the format of its type. A
  format is given by \<open>t\<close>, its number of fraction bits, and \<open>w\<close>, its number of exponent
  bits (23 and 8, 52 and 11). \<open>Finite s m e\<close> is the number \<open>(-1)\<^sup>s \<times> m \<times> 2\<^sup>e\<close>.
\<close>

datatype fval = Finite bool nat int | Infinite bool | NaN

fun bit_length :: "nat \<Rightarrow> nat" where
  "bit_length n = (if n = 0 then 0 else Suc (bit_length (n div 2)))"

declare bit_length.simps [simp del]

definition ieee_qmin :: "nat \<Rightarrow> nat \<Rightarrow> int" where
  "ieee_qmin t w = 2 - 2 ^ (w - 1) - int t"

definition ieee_sign :: "nat \<Rightarrow> nat \<Rightarrow> bool \<Rightarrow> nat" where
  "ieee_sign t w s = (if s then 2 ^ (t + w) else 0)"

definition ieee_inf :: "nat \<Rightarrow> nat \<Rightarrow> bool \<Rightarrow> nat" where
  "ieee_inf t w s = ieee_sign t w s + (2 ^ w - 1) * 2 ^ t"

definition ieee_nan :: "nat \<Rightarrow> nat \<Rightarrow> nat" where
  "ieee_nan t w = (2 ^ w - 1) * 2 ^ t + 2 ^ (t - 1)"

text \<open>
  The value of a pattern: an exponent field of all ones is an infinity or a NaN, a field
  of zero a subnormal number (or a zero), and any other a normal number with its hidden
  bit.
\<close>

definition ieee_decode :: "nat \<Rightarrow> nat \<Rightarrow> nat \<Rightarrow> fval" where
  "ieee_decode t w n =
     (if n div 2 ^ t mod 2 ^ w = 2 ^ w - 1
      then (if n mod 2 ^ t = 0 then Infinite (n div 2 ^ (t + w) mod 2 = 1) else NaN)
      else if n div 2 ^ t mod 2 ^ w = 0
      then Finite (n div 2 ^ (t + w) mod 2 = 1) (n mod 2 ^ t) (ieee_qmin t w)
      else Finite (n div 2 ^ (t + w) mod 2 = 1) (2 ^ t + n mod 2 ^ t)
             (int (n div 2 ^ t mod 2 ^ w) - 1 + ieee_qmin t w))"

text \<open>
  Rounding. \<open>round_shift m d\<close> is \<open>m / 2\<^sup>d\<close> rounded to the nearest integer, a tie to the
  even one. \<open>ieee_round t w s m e\<close> is the pattern of the number nearest to
  \<open>(-1)\<^sup>s \<times> m \<times> 2\<^sup>e\<close> in the format: \<open>ieee_exp\<close> is the exponent of its last place (that
  of the subnormal numbers at least), \<open>ieee_scale\<close> its significand there; exponent and
  significand are added up to the pattern, so that a significand that rounding carries to
  the next power of two lands in the next exponent, and a pattern at or beyond the
  exponent of all ones is the infinity.
\<close>

definition round_shift :: "nat \<Rightarrow> nat \<Rightarrow> nat" where
  "round_shift m d =
     (if 2 ^ (d - 1) < m mod 2 ^ d \<or> (m mod 2 ^ d = 2 ^ (d - 1) \<and> odd (m div 2 ^ d))
      then m div 2 ^ d + 1 else m div 2 ^ d)"

definition ieee_exp :: "nat \<Rightarrow> nat \<Rightarrow> nat \<Rightarrow> int \<Rightarrow> int" where
  "ieee_exp t w m e = max (e + int (bit_length m) - int (t + 1)) (ieee_qmin t w)"

definition ieee_scale :: "nat \<Rightarrow> int \<Rightarrow> int \<Rightarrow> nat" where
  "ieee_scale m e q = (if q \<le> e then m * 2 ^ nat (e - q) else round_shift m (nat (q - e)))"

definition ieee_pack :: "nat \<Rightarrow> nat \<Rightarrow> bool \<Rightarrow> nat \<Rightarrow> nat" where
  "ieee_pack t w s bits =
     (if (2 ^ w - 1) * 2 ^ t \<le> bits then ieee_inf t w s else ieee_sign t w s + bits)"

definition ieee_round :: "nat \<Rightarrow> nat \<Rightarrow> bool \<Rightarrow> nat \<Rightarrow> int \<Rightarrow> nat" where
  "ieee_round t w s m e =
     (if m = 0 then ieee_sign t w s
      else ieee_pack t w s
             (nat (ieee_exp t w m e - ieee_qmin t w) * 2 ^ t + ieee_scale m e (ieee_exp t w m e)))"

text \<open>
  Multiplication and division round the exact result; for the quotient, the integer
  quotient of the significands, scaled to more bits than the format keeps, carries a last
  bit that says whether the division left a remainder. The NaN they yield is the quiet
  NaN of payload zero: which NaN it is has no effect on what the converters store.
\<close>

fun fval_mul :: "nat \<Rightarrow> nat \<Rightarrow> fval \<Rightarrow> fval \<Rightarrow> nat" where
  "fval_mul t w (Finite s1 m1 e1) (Finite s2 m2 e2) =
     ieee_round t w (s1 \<noteq> s2) (m1 * m2) (e1 + e2)"
| "fval_mul t w (Finite s1 m1 e1) (Infinite s2) =
     (if m1 = 0 then ieee_nan t w else ieee_inf t w (s1 \<noteq> s2))"
| "fval_mul t w (Infinite s1) (Finite s2 m2 e2) =
     (if m2 = 0 then ieee_nan t w else ieee_inf t w (s1 \<noteq> s2))"
| "fval_mul t w (Infinite s1) (Infinite s2) = ieee_inf t w (s1 \<noteq> s2)"
| "fval_mul t w NaN y = ieee_nan t w"
| "fval_mul t w x NaN = ieee_nan t w"

definition quotient_sticky :: "nat \<Rightarrow> nat \<Rightarrow> nat" where
  "quotient_sticky n d = 2 * (n div d) + (if n mod d = 0 then 0 else 1)"

fun fval_div :: "nat \<Rightarrow> nat \<Rightarrow> fval \<Rightarrow> fval \<Rightarrow> nat" where
  "fval_div t w (Finite s1 m1 e1) (Finite s2 m2 e2) =
     (if m2 = 0 then (if m1 = 0 then ieee_nan t w else ieee_inf t w (s1 \<noteq> s2))
      else ieee_round t w (s1 \<noteq> s2) (quotient_sticky (m1 * 2 ^ (2 * t + 4)) m2)
             (e1 - e2 - int (2 * t + 4) - 1))"
| "fval_div t w (Finite s1 m1 e1) (Infinite s2) = ieee_sign t w (s1 \<noteq> s2)"
| "fval_div t w (Infinite s1) (Finite s2 m2 e2) = ieee_inf t w (s1 \<noteq> s2)"
| "fval_div t w (Infinite s1) (Infinite s2) = ieee_nan t w"
| "fval_div t w NaN y = ieee_nan t w"
| "fval_div t w x NaN = ieee_nan t w"

text \<open>
  Conversions: from an integer, to an integer (truncation toward zero; \<open>None\<close> for an
  infinity or a NaN), and from a wider format to a narrower one.
\<close>

definition ieee_of_int :: "nat \<Rightarrow> nat \<Rightarrow> int \<Rightarrow> nat" where
  "ieee_of_int t w i = ieee_round t w (i < 0) (nat \<bar>i\<bar>) 0"

fun fval_trunc :: "fval \<Rightarrow> int option" where
  "fval_trunc (Finite s m e) =
     Some ((if s then - 1 else 1)
           * (if 0 \<le> e then int m * 2 ^ nat e else int (m div 2 ^ nat (- e))))"
| "fval_trunc v = None"

fun fval_narrow :: "nat \<Rightarrow> nat \<Rightarrow> fval \<Rightarrow> nat" where
  "fval_narrow t w (Finite s m e) = ieee_round t w s m e"
| "fval_narrow t w (Infinite s) = ieee_inf t w s"
| "fval_narrow t w NaN = ieee_nan t w"

text \<open>
  Comparison, of the values: two finite numbers are compared at the smaller of their
  exponents; a NaN is neither below nor above anything.
\<close>

definition fval_scaled :: "bool \<Rightarrow> nat \<Rightarrow> int \<Rightarrow> int" where
  "fval_scaled s m k = (if s then - 1 else 1) * int m * 2 ^ nat k"

fun fval_less :: "fval \<Rightarrow> fval \<Rightarrow> bool" where
  "fval_less (Finite s1 m1 e1) (Finite s2 m2 e2) =
     (fval_scaled s1 m1 (e1 - min e1 e2) < fval_scaled s2 m2 (e2 - min e1 e2))"
| "fval_less (Finite s1 m1 e1) (Infinite s2) = (\<not> s2)"
| "fval_less (Infinite s1) (Finite s2 m2 e2) = s1"
| "fval_less (Infinite s1) (Infinite s2) = (s1 \<and> \<not> s2)"
| "fval_less NaN y = False"
| "fval_less x NaN = False"

text \<open>
  The operations on \<^verbatim>\<open>float\<close> and \<^verbatim>\<open>double\<close>. C leaves the conversion to an integer type
  undefined when the truncated value is out of the range of the type, and for an infinity
  or a NaN; the model takes what the conversion instructions of the x86-64 target
  (\<^verbatim>\<open>cvttss2si\<close>) yield there, the integer with the sign bit alone.
\<close>

definition f32_trunc :: "float32 \<Rightarrow> int option" where
  "f32_trunc x = fval_trunc (ieee_decode 23 8 (unat x))"

definition f32_less :: "float32 \<Rightarrow> float32 \<Rightarrow> bool" where
  "f32_less x y = fval_less (ieee_decode 23 8 (unat x)) (ieee_decode 23 8 (unat y))"

definition f32_mul :: "float32 \<Rightarrow> float32 \<Rightarrow> float32" where
  "f32_mul x y = of_nat (fval_mul 23 8 (ieee_decode 23 8 (unat x)) (ieee_decode 23 8 (unat y)))"

definition f32_of_int :: "int \<Rightarrow> float32" where
  "f32_of_int i = of_nat (ieee_of_int 23 8 i)"

fun int64_of :: "int option \<Rightarrow> 64 word" where
  "int64_of (Some z) =
     (if - (2 ^ 63) \<le> z \<and> z < 2 ^ 63 then word_of_int z else 0x8000000000000000)"
| "int64_of None = 0x8000000000000000"

fun int32_of :: "int option \<Rightarrow> 32 word" where
  "int32_of (Some z) = (if - (2 ^ 31) \<le> z \<and> z < 2 ^ 31 then word_of_int z else 0x80000000)"
| "int32_of None = 0x80000000"

definition f32_to_int64 :: "float32 \<Rightarrow> 64 word" where
  "f32_to_int64 x = int64_of (f32_trunc x)"

definition f32_to_int32 :: "float32 \<Rightarrow> 32 word" where
  "f32_to_int32 x = int32_of (f32_trunc x)"

definition f64_mul :: "float64 \<Rightarrow> float64 \<Rightarrow> float64" where
  "f64_mul x y = of_nat (fval_mul 52 11 (ieee_decode 52 11 (unat x)) (ieee_decode 52 11 (unat y)))"

definition f64_div :: "float64 \<Rightarrow> float64 \<Rightarrow> float64" where
  "f64_div x y = of_nat (fval_div 52 11 (ieee_decode 52 11 (unat x)) (ieee_decode 52 11 (unat y)))"

definition f64_of_int :: "int \<Rightarrow> float64" where
  "f64_of_int i = of_nat (ieee_of_int 52 11 i)"

definition f32_of_f64 :: "float64 \<Rightarrow> float32" where
  "f32_of_f64 x = of_nat (fval_narrow 23 8 (ieee_decode 52 11 (unat x)))"

text \<open>
  The unit the worked instances run on. The theorems on the I/O routine hold for every
  unit; the ones on the converters are about this one.
\<close>

definition x86_fpu :: fpu where
  "x86_fpu =
     \<lparr>f_mul = f32_mul, f_of_uint = (\<lambda>n. f32_of_int (int n)), f_of_int = f32_of_int,
      f_to_int64 = f32_to_int64, f_to_int32 = f32_to_int32,
      d_one = 0x3FF0000000000000, d_of_uint = (\<lambda>n. f64_of_int (int n)),
      d_of_int = f64_of_int, d_div = f64_div, d_mul = f64_mul, f_of_d = f32_of_f64\<rparr>"

section \<open>The I/O routine\<close>

text \<open>
  The environment of the I/O thread. The data callback is asked with the number of the
  call, the input buffer and the frame count, and answers with its return value and the
  bytes it has put at the start of the output buffer; it does not read the output buffer.
  \<^verbatim>\<open>write\<close> is asked with the number of the call, the descriptor and the byte count,
  and answers with its return value; \<^verbatim>\<open>read\<close> answers with the bytes it has delivered,
  or \<open>None\<close> for a negative return value.
\<close>

record io_env =
  data_cb :: "nat \<Rightarrow> byte list option \<Rightarrow> nat \<Rightarrow> int \<times> byte list"
  dev_write :: "nat \<Rightarrow> int \<Rightarrow> nat \<Rightarrow> int"
  dev_read :: "nat \<Rightarrow> int \<Rightarrow> nat \<Rightarrow> byte list option"

text \<open>
  The stream and the local variables of \<^verbatim>\<open>oss_io_routine\<close> (lines 609-616), the trace
  so far, and the number of calls made to the callback, to \<^verbatim>\<open>write\<close> and to \<^verbatim>\<open>read\<close>.
  The trace of the I/O thread records the callbacks and the device calls; its lock
  operations enclose single accesses to the shared fields and are not recorded.
\<close>

record io_ctx =
  strm :: cubeb_stream
  state :: cubeb_state
  to_read :: nat
  to_write :: nat
  cb_nfr :: int
  write_ofs :: nat
  read_ofs :: nat
  drain :: bool
  trace :: "event list"
  n_cb :: nat
  n_wr :: nat
  n_rd :: nat

text \<open>\<open>overlay b ofs d\<close>: the buffer \<open>b\<close> after \<open>d\<close> has been stored at offset \<open>ofs\<close>.\<close>

definition overlay :: "byte list \<Rightarrow> nat \<Rightarrow> byte list \<Rightarrow> byte list" where
  "overlay b ofs d = take ofs b @ take (length b - ofs) d @ drop (ofs + length d) b"

text \<open>
  Lines 636-639: the record buffer is converted in place before the callback sees it.
  The sample count is an \<^verbatim>\<open>unsigned\<close> product.
\<close>

definition io_convert_record :: "fpu \<Rightarrow> cubeb_stream \<Rightarrow> trap + cubeb_stream" where
  "io_convert_record fp s =
     (if fd (rec_strm s) \<noteq> - 1 \<and> floating (rec_strm s)
      then (case buf (rec_strm s) of
              None \<Rightarrow> Inl NullBuffer
            | Some b \<Rightarrow>
                (case on_cells32
                        (\<lambda>cs. oss_linear32_to_float fp cs
                                (to_uint32 (channels (info (rec_strm s)) * int (nfr s)))) b of
                   Inl t \<Rightarrow> Inl t
                 | Inr b' \<Rightarrow> Inr (s\<lparr>rec_strm := (rec_strm s)\<lparr>buf := Some b'\<rparr>\<rparr>)))
      else Inr s)"

text \<open>
  Lines 645-659: the volume is read and the frames the callback produced are converted
  in place. \<open>r\<close> is \<open>cb_nfr\<close>; the sample count is a \<^verbatim>\<open>long\<close> product passed as
  \<^verbatim>\<open>unsigned\<close>.
\<close>

definition io_convert_play :: "fpu \<Rightarrow> int \<Rightarrow> cubeb_stream \<Rightarrow> trap + cubeb_stream" where
  "io_convert_play fp r s =
     (if fd (play s) \<noteq> - 1
      then (let vol = volume s; sample_count = to_uint32 (channels (info (play s)) * r)
            in case buf (play s) of
                 None \<Rightarrow> Inl NullBuffer
               | Some b \<Rightarrow>
                   (case (if floating (play s)
                          then on_cells32 (\<lambda>cs. oss_float_to_linear32 fp cs sample_count vol) b
                          else on_cells16 (\<lambda>cs. oss_linear16_set_vol fp cs sample_count vol) b) of
                      Inl t \<Rightarrow> Inl t
                    | Inr b' \<Rightarrow> Inr (s\<lparr>play := (play s)\<lparr>buf := Some b'\<rparr>\<rparr>)))
      else Inr s)"

text \<open>
  Lines 682-694, one \<^verbatim>\<open>write\<close>. The flag of the result says whether the inner loop is
  left by \<^verbatim>\<open>break\<close>. \<open>bytes\<close>, \<open>to_write\<close> and \<open>write_ofs\<close> are \<^verbatim>\<open>size_t\<close>, the frame
  counter is \<^verbatim>\<open>uint64_t\<close>; the division has no guard against a frame size of zero, and
  the call has none against a range that leaves the buffer.
\<close>

definition io_write :: "io_env \<Rightarrow> io_ctx \<Rightarrow> trap + (bool \<times> io_ctx)" where
  "io_write env c =
     (let s = strm c; bytes = (to_write c * frame_size (play s)) mod 2 ^ 64
      in case buf (play s) of
           None \<Rightarrow> Inl NullBuffer
         | Some b \<Rightarrow>
             if length b < write_ofs c + bytes then Inl OutOfBounds
             else
               (let n = dev_write env (n_wr c) (fd (play s)) bytes; c = c\<lparr>n_wr := n_wr c + 1\<rparr>
                in if n < 0
                   then Inr (True, c\<lparr>state := CUBEB_STATE_ERROR,
                                    trace := trace c @ [DevWriteErr (fd (play s))]\<rparr>)
                   else if frame_size (play s) = 0 then Inl DivByZero
                   else
                     (let frames = n div int (frame_size (play s))
                      in Inr (False,
                              c\<lparr>strm := s\<lparr>frames_written :=
                                       to_uint64 (int (frames_written s) + frames)\<rparr>,
                                to_write := to_uint64 (int (to_write c) - frames),
                                write_ofs := to_uint64 (int (write_ofs c) + n),
                                trace := trace c
                                  @ [DevWrite (fd (play s)) (take (nat n) (drop (write_ofs c) b))]\<rparr>))))"

text \<open>Lines 695-704, one \<^verbatim>\<open>read\<close>, in the same way.\<close>

definition io_read :: "io_env \<Rightarrow> io_ctx \<Rightarrow> trap + (bool \<times> io_ctx)" where
  "io_read env c =
     (let s = strm c; bytes = (to_read c * frame_size (rec_strm s)) mod 2 ^ 64
      in case buf (rec_strm s) of
           None \<Rightarrow> Inl NullBuffer
         | Some b \<Rightarrow>
             (let c = c\<lparr>n_rd := n_rd c + 1\<rparr>
              in case dev_read env (n_rd c - 1) (fd (rec_strm s)) bytes of
                   None \<Rightarrow>
                     Inr (True, c\<lparr>state := CUBEB_STATE_ERROR,
                                  trace := trace c @ [DevReadErr (fd (rec_strm s))]\<rparr>)
                 | Some d \<Rightarrow>
                     if length b < read_ofs c + length d then Inl OutOfBounds
                     else if frame_size (rec_strm s) = 0 then Inl DivByZero
                     else
                       (let n = int (length d); frames = n div int (frame_size (rec_strm s))
                        in Inr (False,
                                c\<lparr>strm := s\<lparr>rec_strm :=
                                         (rec_strm s)\<lparr>buf := Some (overlay b (read_ofs c) d)\<rparr>\<rparr>,
                                  to_read := to_uint64 (int (to_read c) - frames),
                                  read_ofs := to_uint64 (int (read_ofs c) + n),
                                  trace := trace c @ [DevRead (fd (rec_strm s)) d]\<rparr>))))"

text \<open>
  The retry loop of lines 678-705. The loop ends when both counts are zero or a call
  fails; a device that keeps returning zero keeps it running, and then there is no
  result.
\<close>

partial_function (option) oss_io_xfer :: "io_env \<Rightarrow> io_ctx \<Rightarrow> (trap + io_ctx) option" where
  "oss_io_xfer env c =
     (if to_write c > 0 \<or> to_read c > 0
      then (case (if to_write c > 0 then io_write env c else Inr (False, c)) of
              Inl t \<Rightarrow> Some (Inl t)
            | Inr (brk, c) \<Rightarrow>
                if brk then Some (Inr c)
                else (case (if to_read c > 0 then io_read env c else Inr (False, c)) of
                        Inl t \<Rightarrow> Some (Inl t)
                      | Inr (brk, c) \<Rightarrow> if brk then Some (Inr c) else oss_io_xfer env c))
      else Some (Inr c))"

declare oss_io_xfer.simps [code]

text \<open>
  One pass through the body of the outer loop (lines 620-709). Every \<^verbatim>\<open>break\<close> of the
  body follows an assignment of a state other than \<open>STARTED\<close>, so the pass returns the
  context and the loop below tests the state.
\<close>

definition oss_io_iter :: "fpu \<Rightarrow> io_env \<Rightarrow> io_ctx \<Rightarrow> (trap + io_ctx) option" where
  "oss_io_iter fp env c =
     (let s = strm c
      in if \<not> running s then Some (Inr (c\<lparr>state := CUBEB_STATE_STOPPED\<rparr>))
         else if fd (play s) = - 1 \<and> fd (rec_strm s) = - 1
         then Some (Inr (c\<lparr>state := CUBEB_STATE_STOPPED\<rparr>))
         else
           (case io_convert_record fp s of
              Inl t \<Rightarrow> Some (Inl t)
            | Inr s \<Rightarrow>
                (case data_cb env (n_cb c) (buf (rec_strm s)) (nfr s) of
                   (r, out) \<Rightarrow>
                     (let c = c\<lparr>cb_nfr := r, n_cb := n_cb c + 1,
                                 trace := trace c @ [DataCb (buf (rec_strm s)) (nfr s)]\<rparr>;
                          s = s\<lparr>play := (play s)\<lparr>buf :=
                                  map_option (\<lambda>b. overlay b 0 out) (buf (play s))\<rparr>\<rparr>
                      in if r = CUBEB_ERROR
                         then Some (Inr (c\<lparr>strm := s, state := CUBEB_STATE_ERROR\<rparr>))
                         else
                           (case io_convert_play fp r s of
                              Inl t \<Rightarrow> Some (Inl t)
                            | Inr s \<Rightarrow>
                                if r < int (nfr s) \<and> fd (play s) = - 1
                                then Some (Inr (c\<lparr>strm := s, state := CUBEB_STATE_STOPPED\<rparr>))
                                else
                                  (case oss_io_xfer env
                                          (c\<lparr>strm := s,
                                             drain := (drain c \<or> r < int (nfr s)),
                                             to_write :=
                                               (if fd (play s) \<noteq> - 1 then to_uint64 r else 0),
                                             to_read := (if fd (rec_strm s) \<noteq> - 1 then nfr s else 0),
                                             write_ofs := 0, read_ofs := 0\<rparr>) of
                                     None \<Rightarrow> None
                                   | Some (Inl t) \<Rightarrow> Some (Inl t)
                                   | Some (Inr c) \<Rightarrow>
                                       Some (Inr (if drain c \<and> state c \<noteq> CUBEB_STATE_ERROR
                                                  then c\<lparr>state := CUBEB_STATE_DRAINED\<rparr>
                                                  else c))))))))"

text \<open>The outer loop (line 619): \<open>None\<close> when it never ends.\<close>

partial_function (option) oss_io_loop ::
  "fpu \<Rightarrow> io_env \<Rightarrow> io_ctx \<Rightarrow> (trap + io_ctx) option" where
  "oss_io_loop fp env c =
     (if state c = CUBEB_STATE_STARTED
      then (case oss_io_iter fp env c of
              None \<Rightarrow> None
            | Some (Inl t) \<Rightarrow> Some (Inl t)
            | Some (Inr c) \<Rightarrow> oss_io_loop fp env c)
      else Some (Inr c))"

declare oss_io_loop.simps [code]

text \<open>
  From the head of the loop to the return of the routine: the loop, then the state
  callback of line 711.
\<close>

definition oss_io_run :: "fpu \<Rightarrow> io_env \<Rightarrow> io_ctx \<Rightarrow> (trap + io_ctx) option" where
  "oss_io_run fp env c =
     (case oss_io_loop fp env c of
        None \<Rightarrow> None
      | Some (Inl t) \<Rightarrow> Some (Inl t)
      | Some (Inr c) \<Rightarrow> Some (Inr (c\<lparr>trace := trace c @ [StateCb (state c)]\<rparr>)))"

text \<open>
  \<^verbatim>\<open>oss_io_routine\<close> (lines 606-713): the locals as initialised, the state callback of
  line 618 in the trace, then the loop and the exit.
\<close>

definition io_start :: "cubeb_stream \<Rightarrow> io_ctx" where
  "io_start s =
     \<lparr>strm = s, state = CUBEB_STATE_STARTED, to_read = 0, to_write = 0, cb_nfr = 0,
      write_ofs = 0, read_ofs = 0, drain = False, trace = [StateCb CUBEB_STATE_STARTED],
      n_cb = 0, n_wr = 0, n_rd = 0\<rparr>"

definition oss_io_routine :: "fpu \<Rightarrow> io_env \<Rightarrow> cubeb_stream \<Rightarrow> (trap + io_ctx) option" where
  "oss_io_routine fp env s = oss_io_run fp env (io_start s)"

text \<open>What a trace holds: the bytes written, the bytes read, the states reported.\<close>

fun written :: "event list \<Rightarrow> byte list" where
  "written [] = []"
| "written (DevWrite d x # es) = x @ written es"
| "written (e # es) = written es"

fun was_read :: "event list \<Rightarrow> byte list" where
  "was_read [] = []"
| "was_read (DevRead d x # es) = x @ was_read es"
| "was_read (e # es) = was_read es"

fun state_cbs :: "event list \<Rightarrow> cubeb_state list" where
  "state_cbs [] = []"
| "state_cbs (StateCb st # es) = st # state_cbs es"
| "state_cbs (e # es) = state_cbs es"

fun data_cb_inputs :: "event list \<Rightarrow> byte list option list" where
  "data_cb_inputs [] = []"
| "data_cb_inputs (DataCb b n # es) = b # data_cb_inputs es"
| "data_cb_inputs (e # es) = data_cb_inputs es"

text \<open>
  A device that makes progress in whole frames: asked for a positive number of whole
  frames, \<^verbatim>\<open>write\<close> (\<^verbatim>\<open>read\<close>) transfers a positive number of whole frames, no more
  than asked, and does not fail.
\<close>

definition writes_ok :: "io_env \<Rightarrow> nat \<Rightarrow> bool" where
  "writes_ok env fsize \<longleftrightarrow>
     (\<forall>i d b. 0 < b \<and> fsize dvd b \<longrightarrow>
        0 < dev_write env i d b \<and> dev_write env i d b \<le> int b
        \<and> int fsize dvd dev_write env i d b)"

definition reads_ok :: "io_env \<Rightarrow> nat \<Rightarrow> bool" where
  "reads_ok env fsize \<longleftrightarrow>
     (\<forall>i d b. 0 < b \<and> fsize dvd b \<longrightarrow>
        (case dev_read env i d b of
           None \<Rightarrow> False
         | Some x \<Rightarrow> 0 < length x \<and> length x \<le> b \<and> fsize dvd length x))"

fun is_device_call :: "event \<Rightarrow> bool" where
  "is_device_call (DevWrite d x) = True"
| "is_device_call (DevWriteErr d) = True"
| "is_device_call (DevRead d x) = True"
| "is_device_call (DevReadErr d) = True"
| "is_device_call e = False"

text \<open>
  \<open>xfer_steps a b c c'\<close>: from \<open>c\<close>, device calls that together wrote \<open>a\<close> whole frames
  and read \<open>b\<close> whole frames lead to \<open>c'\<close>. The bytes written are the next \<open>a\<close> frames of
  the play buffer; the counts, the offsets and the frame counter move by as much;
  nothing else of the context changes but the content of the record buffer.
\<close>

definition xfer_steps :: "nat \<Rightarrow> nat \<Rightarrow> io_ctx \<Rightarrow> io_ctx \<Rightarrow> bool" where
  "xfer_steps a b c c' \<longleftrightarrow>
     (\<exists>rb' evs nw nr.
        c' = c\<lparr>strm := (strm c)\<lparr>frames_written := (frames_written (strm c) + a) mod 2 ^ 64,
                                rec_strm := (rec_strm (strm c))\<lparr>buf := rb'\<rparr>\<rparr>,
               to_write := to_write c - a, to_read := to_read c - b,
               write_ofs := write_ofs c + a * frame_size (play (strm c)),
               read_ofs := read_ofs c + b * frame_size (rec_strm (strm c)),
               trace := trace c @ evs, n_wr := nw, n_rd := nr\<rparr>
        \<and> a \<le> to_write c \<and> b \<le> to_read c
        \<and> map_option length rb' = map_option length (buf (rec_strm (strm c)))
        \<and> list_all is_device_call evs
        \<and> written evs =
              (case buf (play (strm c)) of
                 None \<Rightarrow> []
               | Some pb \<Rightarrow> take (a * frame_size (play (strm c))) (drop (write_ofs c) pb))
        \<and> length (was_read evs) = b * frame_size (rec_strm (strm c)))"

text \<open>
  What lets the retry loop run to its end from \<open>c\<close>: for each direction with frames
  left, a device that makes progress, a frame size that is not zero, and a buffer that
  holds the frames from the current offset on.
\<close>

definition xfer_ready :: "io_env \<Rightarrow> io_ctx \<Rightarrow> bool" where
  "xfer_ready env c \<longleftrightarrow>
     frames_written (strm c) < 2 ^ 64
     \<and> (0 < to_write c \<longrightarrow>
          writes_ok env (frame_size (play (strm c))) \<and> 0 < frame_size (play (strm c))
          \<and> (\<exists>pb. buf (play (strm c)) = Some pb \<and> length pb < 2 ^ 64
                \<and> write_ofs c + to_write c * frame_size (play (strm c)) \<le> length pb))
     \<and> (0 < to_read c \<longrightarrow>
          reads_ok env (frame_size (rec_strm (strm c))) \<and> 0 < frame_size (rec_strm (strm c))
          \<and> (\<exists>rb. buf (rec_strm (strm c)) = Some rb \<and> length rb < 2 ^ 64
                \<and> read_ofs c + to_read c * frame_size (rec_strm (strm c)) \<le> length rb))"

section \<open>Stream construction\<close>

text \<open>
  Modelled from the spec: the stream parameters of \<^verbatim>\<open>cubeb/cubeb.h\<close>, a header that is not
  among the sources. Section 4.1 of the specification lists what a request carries: a
  sample-format tag (16-bit little-endian, 16-bit big-endian, 32-bit floating), a channel
  count, a sample rate, and preferences, one of which is loopback. The native-endian
  floating tag is the little-endian one, as on the targets of this backend.
\<close>

datatype cubeb_sample_format =
  CUBEB_SAMPLE_S16LE | CUBEB_SAMPLE_S16BE | CUBEB_SAMPLE_FLOAT32LE | CUBEB_SAMPLE_FLOAT32BE

definition CUBEB_SAMPLE_FLOAT32NE :: cubeb_sample_format where
  "CUBEB_SAMPLE_FLOAT32NE = CUBEB_SAMPLE_FLOAT32LE"

definition CUBEB_STREAM_PREF_LOOPBACK :: "32 word" where
  "CUBEB_STREAM_PREF_LOOPBACK = 0x01"

record cubeb_stream_params =
  format :: cubeb_sample_format
  rate :: nat
  p_channels :: nat
  prefs :: "32 word"

text \<open>
  The format codes of \<^verbatim>\<open>sys/soundcard.h\<close>, the size of a device node name there, and the
  pattern of the \<open>float\<close> 1.0.
\<close>

definition AFMT_S16_LE :: int where "AFMT_S16_LE = 0x10"
definition AFMT_S16_BE :: int where "AFMT_S16_BE = 0x20"
definition AFMT_S32_NE :: int where "AFMT_S32_NE = 0x1000"
definition OSS_DEVNODE_SIZE :: nat where "OSS_DEVNODE_SIZE = 32"
definition FLOAT_ONE :: float32 where "FLOAT_ONE = 0x3F800000"

text \<open>
  The system, as stream construction sees it: whether an allocation succeeds, the
  descriptor \<^verbatim>\<open>open\<close> returns (\<open>- 1\<close> on failure), the value each negotiation
  \<^verbatim>\<open>ioctl\<close> writes back (\<open>None\<close> when it returns \<open>- 1\<close>), whether the mutex can be
  created, and the fragment count and fragment size the queue-depth queries report
  (\<open>None\<close> when the query does not return 0).
\<close>

datatype open_mode = O_RDONLY | O_WRONLY

record init_env =
  calloc_ok :: "obj \<Rightarrow> bool"
  dev_open :: "string \<Rightarrow> open_mode \<Rightarrow> int"
  ioctl_setfmt :: "int \<Rightarrow> int \<Rightarrow> int option"
  ioctl_channels :: "int \<Rightarrow> int \<Rightarrow> int option"
  ioctl_speed :: "int \<Rightarrow> int \<Rightarrow> int option"
  mutex_init_ok :: bool
  ioctl_getospace :: "int \<Rightarrow> (int \<times> int) option"
  ioctl_getispace :: "int \<Rightarrow> (int \<times> int) option"

text \<open>\<^verbatim>\<open>oss_copy_params\<close> (lines 501-534): the result code and \<open>sinfo\<close> as it leaves it.\<close>

definition oss_copy_params ::
  "init_env \<Rightarrow> int \<Rightarrow> cubeb_stream_params \<Rightarrow> stream_info \<Rightarrow> int \<times> stream_info" where
  "oss_copy_params env d params sinfo =
     (let sinfo = sinfo\<lparr>channels := to_int32 (int (p_channels params)),
                        sample_rate := to_int32 (int (rate params))\<rparr>;
          known =
            (if format params = CUBEB_SAMPLE_S16LE
               then Some (sinfo\<lparr>fmt := AFMT_S16_LE, precision := 16\<rparr>)
             else if format params = CUBEB_SAMPLE_S16BE
               then Some (sinfo\<lparr>fmt := AFMT_S16_BE, precision := 16\<rparr>)
             else if format params = CUBEB_SAMPLE_FLOAT32NE
               then Some (sinfo\<lparr>fmt := AFMT_S32_NE, precision := 32\<rparr>)
             else None)
      in case known of
           None \<Rightarrow> (CUBEB_ERROR_INVALID_FORMAT, sinfo)
         | Some sinfo \<Rightarrow>
             (case ioctl_setfmt env d (fmt sinfo) of
                None \<Rightarrow> (CUBEB_ERROR, sinfo)
              | Some v \<Rightarrow>
                  (let sinfo = sinfo\<lparr>fmt := v\<rparr>
                   in case ioctl_channels env d (channels sinfo) of
                        None \<Rightarrow> (CUBEB_ERROR, sinfo)
                      | Some v \<Rightarrow>
                          (let sinfo = sinfo\<lparr>channels := v\<rparr>
                           in case ioctl_speed env d (sample_rate sinfo) of
                                None \<Rightarrow> (CUBEB_ERROR, sinfo)
                              | Some v \<Rightarrow> (CUBEB_OK, sinfo\<lparr>sample_rate := v\<rparr>)))))"

text \<open>
  The stream right after its allocation (lines 735-751): \<^verbatim>\<open>calloc\<close> zeroes it, both
  descriptors become \<open>- 1\<close>, \<open>nfr\<close> the default, and the names are copied with
  \<^verbatim>\<open>strlcpy\<close>, which truncates to the size of the destination less one.
\<close>

definition zero_endpoint :: "string \<Rightarrow> oss_stream" where
  "zero_endpoint n =
     \<lparr>name = take (OSS_DEVNODE_SIZE - 1) n, fd = - 1, buf = None,
      info = \<lparr>channels = 0, sample_rate = 0, fmt = 0, precision = 0\<rparr>,
      frame_size = 0, floating = False\<rparr>"

definition new_stream :: "string option \<Rightarrow> string option \<Rightarrow> cubeb_stream" where
  "new_stream input_device output_device =
     \<lparr>thread = None, running = False, volume = 0,
      play = zero_endpoint (case output_device of None \<Rightarrow> OSS_DEFAULT_DEVICE | Some n \<Rightarrow> n),
      rec_strm = zero_endpoint (case input_device of None \<Rightarrow> OSS_DEFAULT_DEVICE | Some n \<Rightarrow> n),
      frames_written = 0, blocks_written = 0, nfr = OSS_DEFAULT_NFRAMES\<rparr>"

text \<open>
  The label \<^verbatim>\<open>error\<close> (lines 847-851) for an allocated stream: destroy it and return
  \<open>ret\<close>; the output pointer is not written. No thread exists yet, so the join of
  \<^verbatim>\<open>oss_stream_stop\<close> has nothing to bring.
\<close>

definition no_thread :: "cubeb_stream \<Rightarrow> thread_effect" where
  "no_thread s =
     \<lparr>te_frames_written = frames_written s, te_play_buf = buf (play s),
      te_record_buf = buf (rec_strm s)\<rparr>"

definition init_error ::
  "int \<Rightarrow> cubeb_stream \<Rightarrow> event list \<Rightarrow> int \<times> cubeb_stream option \<times> event list" where
  "init_error ret s evs = (ret, None, evs @ oss_stream_destroy (no_thread s) s)"

text \<open>
  One direction of lines 752-793; the code is the same for the input (\<open>O_RDONLY\<close>, the
  record endpoint) and the output (\<open>O_WRONLY\<close>, the play endpoint). \<open>Inl\<close> is a jump to
  \<^verbatim>\<open>error\<close>; both results carry \<open>ret\<close>, the endpoint and the calls made.
\<close>

definition init_direction ::
  "init_env \<Rightarrow> open_mode \<Rightarrow> cubeb_stream_params option \<Rightarrow> int \<Rightarrow> oss_stream
   \<Rightarrow> (int \<times> oss_stream \<times> event list) + (int \<times> oss_stream \<times> event list)" where
  "init_direction env mode stream_params ret e =
     (case stream_params of
        None \<Rightarrow> Inr (ret, e, [])
      | Some params \<Rightarrow>
          if prefs params AND CUBEB_STREAM_PREF_LOOPBACK \<noteq> 0
          then Inl (CUBEB_ERROR_NOT_SUPPORTED, e, [])
          else
            (let e = (if fd e = - 1 then e\<lparr>fd := dev_open env (name e) mode\<rparr> else e)
             in if fd e = - 1 then Inl (CUBEB_ERROR_DEVICE_UNAVAILABLE, e, [])
                else
                  (case oss_copy_params env (fd e) params (info e) of
                     (ret, sinfo) \<Rightarrow>
                       if ret \<noteq> CUBEB_OK
                       then Inl (ret, e\<lparr>info := sinfo\<rparr>, [DevOpen (fd e)])
                       else Inr (ret,
                                 e\<lparr>info := sinfo,
                                   floating := (format params = CUBEB_SAMPLE_FLOAT32NE)\<rparr>,
                                 [DevOpen (fd e)]))))"

text \<open>
  The queue depth of one direction in frames (lines 805-813 and 816-824), from the initial
  \<open>1\<close> of \<open>playnfr\<close> and \<open>recnfr\<close>. The product of the two \<^verbatim>\<open>int\<close> fields is
  converted to \<^verbatim>\<open>unsigned int\<close> for the division, which has no guard against a frame
  size of zero.
\<close>

definition queue_nfr :: "int \<Rightarrow> (int \<times> int) option \<Rightarrow> nat \<Rightarrow> trap + nat" where
  "queue_nfr d bi fsize =
     (if d \<noteq> - 1
      then (case bi of
              None \<Rightarrow> Inr 1
            | Some (fragstotal, fragsize) \<Rightarrow>
                if fsize = 0 then Inl DivByZero
                else (let n = to_uint32 (fragstotal * fragsize) div fsize
                      in Inr (if 1 < n then n else 1)))
      else Inr 1)"

text \<open>The allocation of a sample buffer (lines 832-843): \<^verbatim>\<open>calloc(s->nfr, frame_size)\<close>.\<close>

definition init_buf :: "init_env \<Rightarrow> obj \<Rightarrow> nat \<Rightarrow> oss_stream \<Rightarrow> oss_stream option" where
  "init_buf env ob n e =
     (if fd e \<noteq> - 1
      then (if calloc_ok env ob then Some (e\<lparr>buf := Some (replicate (n * frame_size e) 0)\<rparr>)
            else None)
      else Some e)"

text \<open>
  \<^verbatim>\<open>oss_stream_init\<close> (lines 715-852): \<open>Inl\<close> where the C traps, else the result code, the
  stream stored through the output pointer (\<open>None\<close> when it is not written) and the calls
  made.
\<close>

definition oss_stream_init ::
  "init_env \<Rightarrow> string option \<Rightarrow> cubeb_stream_params option
   \<Rightarrow> string option \<Rightarrow> cubeb_stream_params option
   \<Rightarrow> trap + (int \<times> cubeb_stream option \<times> event list)" where
  "oss_stream_init env input_device input_stream_params output_device output_stream_params =
     (if \<not> calloc_ok env ObjStream then Inr (CUBEB_ERROR, None, [])
      else
        (let s = new_stream input_device output_device; evs = [Alloc ObjStream]
         in case init_direction env O_RDONLY input_stream_params CUBEB_OK (rec_strm s) of
              Inl (ret, e, evs1) \<Rightarrow> Inr (init_error ret (s\<lparr>rec_strm := e\<rparr>) (evs @ evs1))
            | Inr (ret, e, evs1) \<Rightarrow>
         (let s = s\<lparr>rec_strm := e\<rparr>; evs = evs @ evs1
          in case init_direction env O_WRONLY output_stream_params ret (play s) of
               Inl (ret, e, evs2) \<Rightarrow> Inr (init_error ret (s\<lparr>play := e\<rparr>) (evs @ evs2))
             | Inr (ret, e, evs2) \<Rightarrow>
         (let s = s\<lparr>play := e, volume := FLOAT_ONE\<rparr>; evs = evs @ evs2
          in if \<not> mutex_init_ok env then Inr (init_error ret s evs)
             else
         (let evs = evs @ [MutexInit];
              s = s\<lparr>play := (play s)\<lparr>frame_size :=
                     to_uint32 (channels (info (play s)) * (precision (info (play s)) div 8))\<rparr>\<rparr>
          in case queue_nfr (fd (play s)) (ioctl_getospace env (fd (play s)))
                    (frame_size (play s)) of
               Inl t \<Rightarrow> Inl t
             | Inr playnfr \<Rightarrow>
         (let s = s\<lparr>rec_strm := (rec_strm s)\<lparr>frame_size :=
                     to_uint32 (channels (info (rec_strm s))
                                * (precision (info (rec_strm s)) div 8))\<rparr>\<rparr>
          in case queue_nfr (fd (rec_strm s)) (ioctl_getispace env (fd (rec_strm s)))
                    (frame_size (rec_strm s)) of
               Inl t \<Rightarrow> Inl t
             | Inr recnfr \<Rightarrow>
         (let s = s\<lparr>nfr :=
                     (if fd (play s) \<noteq> - 1 \<and> fd (rec_strm s) \<noteq> - 1
                      then (if playnfr < recnfr then playnfr else recnfr)
                      else if fd (play s) \<noteq> - 1 then playnfr
                      else if fd (rec_strm s) \<noteq> - 1 then recnfr
                      else nfr s)\<rparr>
          in case init_buf env ObjPlayBuf (nfr s) (play s) of
               None \<Rightarrow> Inr (init_error CUBEB_ERROR s evs)
             | Some e \<Rightarrow>
         (let evs = evs @ (if fd e \<noteq> - 1 then [Alloc ObjPlayBuf] else []); s = s\<lparr>play := e\<rparr>
          in case init_buf env ObjRecordBuf (nfr s) (rec_strm s) of
               None \<Rightarrow> Inr (init_error CUBEB_ERROR s evs)
             | Some e \<Rightarrow>
                 Inr (CUBEB_OK, Some (s\<lparr>rec_strm := e\<rparr>),
                      evs @ (if fd e \<noteq> - 1 then [Alloc ObjRecordBuf] else []))))))))))"

section \<open>The control thread while the I/O thread runs\<close>

text \<open>
  \<^verbatim>\<open>oss_stream_set_volume\<close> (lines 888-899): the result code, the stream and the calls
  made. The two comparisons are made in \<^verbatim>\<open>double\<close>, where every \<^verbatim>\<open>float\<close> is exact; both
  are false for a NaN, which is stored as it is.
\<close>

definition oss_stream_set_volume ::
  "cubeb_stream \<Rightarrow> float32 \<Rightarrow> int \<times> cubeb_stream \<times> event list" where
  "oss_stream_set_volume s v =
     (CUBEB_OK,
      s\<lparr>volume := (if f32_less v 0 then 0 else if f32_less FLOAT_ONE v then FLOAT_ONE else v)\<rparr>,
      [MutexLock, MutexUnlock])"

text \<open>
  The I/O thread reads the two fields that the control thread writes once in a pass, each
  under the mutex: \<open>running\<close> at line 621 and \<open>volume\<close> at line 649. What the control thread
  has done by then is a call of \<^verbatim>\<open>oss_stream_set_volume\<close> since the pass before, or none,
  and a call of \<^verbatim>\<open>oss_stream_stop\<close>, or none, which has cleared \<open>running\<close> (line 541) and
  waits for the thread.
\<close>

definition control_calls :: "bool \<Rightarrow> float32 option \<Rightarrow> cubeb_stream \<Rightarrow> cubeb_stream" where
  "control_calls stop v s =
     (case v of None \<Rightarrow> s | Some x \<Rightarrow> fst (snd (oss_stream_set_volume s x)))
     \<lparr>running := running s \<and> \<not> stop\<rparr>"

text \<open>
  The first \<open>n\<close> passes of the loop of \<^verbatim>\<open>oss_io_routine\<close> from \<open>c\<close>, or as many as there
  are, with the control thread at work: \<open>stops i\<close> says whether stop has been called by
  pass \<open>i\<close>, \<open>sets i\<close> is the volume that has been set since the pass before. With no call
  at all these are the passes of \<open>oss_io_loop\<close>.
\<close>

primrec oss_io_passes ::
  "fpu \<Rightarrow> io_env \<Rightarrow> (nat \<Rightarrow> bool) \<Rightarrow> (nat \<Rightarrow> float32 option) \<Rightarrow> nat \<Rightarrow> io_ctx
   \<Rightarrow> (trap + io_ctx) option" where
  "oss_io_passes fp env stops sets 0 c = Some (Inr c)"
| "oss_io_passes fp env stops sets (Suc n) c =
     (if state c = CUBEB_STATE_STARTED
      then (case oss_io_iter fp env (c\<lparr>strm := control_calls (stops 0) (sets 0) (strm c)\<rparr>) of
              None \<Rightarrow> None
            | Some (Inl t) \<Rightarrow> Some (Inl t)
            | Some (Inr c') \<Rightarrow>
                oss_io_passes fp env (\<lambda>i. stops (Suc i)) (\<lambda>i. sets (Suc i)) n c')
      else Some (Inr c))"

text \<open>
  \<open>xfer_fits\<close> is \<open>xfer_ready\<close> without the demands on the device. \<open>whole_frames\<close> asks
  less of the device than \<open>writes_ok\<close> and \<open>reads_ok\<close>: a call may fail or transfer nothing,
  but a call that succeeds on a request of whole frames transfers whole frames, no more
  than asked.
\<close>

definition xfer_fits :: "io_ctx \<Rightarrow> bool" where
  "xfer_fits c \<longleftrightarrow>
     frames_written (strm c) < 2 ^ 64
     \<and> (0 < to_write c \<longrightarrow>
          0 < frame_size (play (strm c))
          \<and> (\<exists>pb. buf (play (strm c)) = Some pb \<and> length pb < 2 ^ 64
                \<and> write_ofs c + to_write c * frame_size (play (strm c)) \<le> length pb))
     \<and> (0 < to_read c \<longrightarrow>
          0 < frame_size (rec_strm (strm c))
          \<and> (\<exists>rb. buf (rec_strm (strm c)) = Some rb \<and> length rb < 2 ^ 64
                \<and> read_ofs c + to_read c * frame_size (rec_strm (strm c)) \<le> length rb))"

definition whole_frames :: "io_env \<Rightarrow> nat \<Rightarrow> nat \<Rightarrow> bool" where
  "whole_frames env psize rsize \<longleftrightarrow>
     (\<forall>i d b. psize dvd b \<and> 0 \<le> dev_write env i d b \<longrightarrow>
        dev_write env i d b \<le> int b \<and> int psize dvd dev_write env i d b)
     \<and> (\<forall>i d b x. rsize dvd b \<and> dev_read env i d b = Some x \<longrightarrow>
          length x \<le> b \<and> rsize dvd length x)"

text \<open>
  What of a context of the I/O thread does not depend on the volume: everything but the
  volume itself, the content of the play buffer and the content of the bytes written
  (their lengths stay). \<open>record_view\<close> is what the application sees on the record side:
  the input buffers passed to the data callback so far, in order; the input buffer that
  the next pass would pass, which is the record buffer after its conversion (or the trap
  of the conversion); the record buffer; and the state.
\<close>

fun erase_event :: "event \<Rightarrow> event" where
  "erase_event (DevWrite d x) = DevWrite d (replicate (length x) 0)"
| "erase_event e = e"

type_synonym ctx_view =
  "(cubeb_state \<times> nat \<times> nat \<times> int \<times> nat \<times> nat \<times> bool \<times> nat \<times> nat \<times> nat \<times> event list)
   \<times> (oss_stream \<times> bool \<times> nat \<times> nat \<times> nat \<times> nat option)
   \<times> (string \<times> int \<times> stream_info \<times> nat \<times> bool \<times> nat option)"

definition sans_volume :: "io_ctx \<Rightarrow> ctx_view" where
  "sans_volume c =
     ((state c, to_read c, to_write c, cb_nfr c, write_ofs c, read_ofs c, drain c,
       n_cb c, n_wr c, n_rd c, map erase_event (trace c)),
      (rec_strm (strm c), running (strm c), nfr (strm c), frames_written (strm c),
       blocks_written (strm c), thread (strm c)),
      (name (play (strm c)), fd (play (strm c)), info (play (strm c)),
       frame_size (play (strm c)), floating (play (strm c)),
       map_option length (buf (play (strm c)))))"

definition record_view ::
  "fpu \<Rightarrow> io_ctx
   \<Rightarrow> byte list option list \<times> (trap + byte list option) \<times> byte list option \<times> cubeb_state" where
  "record_view fp c =
     (data_cb_inputs (trace c),
      map_sum id (\<lambda>s. buf (rec_strm s)) (io_convert_record fp (strm c)),
      buf (rec_strm (strm c)), state c)"

text \<open>
  A stream as construction leaves it, for the directions that are open: a positive channel
  count, a frame of 4 bytes a channel for floating samples and 2 bytes otherwise, a buffer
  of \<open>nfr\<close> frames that fits the address space; and the counters within their C types.
\<close>

definition endpoint_ok :: "nat \<Rightarrow> oss_stream \<Rightarrow> bool" where
  "endpoint_ok n e \<longleftrightarrow>
     (fd e \<noteq> - 1 \<longrightarrow>
        0 < channels (info e)
        \<and> frame_size e = nat (channels (info e)) * (if floating e then 4 else 2)
        \<and> (\<exists>b. buf e = Some b \<and> length b = n * frame_size e \<and> length b < 2 ^ 64))"

definition stream_ok :: "cubeb_stream \<Rightarrow> bool" where
  "stream_ok s \<longleftrightarrow>
     endpoint_ok (nfr s) (play s) \<and> endpoint_ok (nfr s) (rec_strm s)
     \<and> frames_written s < 2 ^ 64 \<and> nfr s < 2 ^ 32"

text \<open>
  Concrete streams for the worked instances below: a device endpoint that was never opened,
  a 16-bit stereo playback endpoint on descriptor 4 with a buffer of two frames, and the
  playback-only stream made of them.
\<close>

definition closed_endpoint :: oss_stream where
  "closed_endpoint =
     \<lparr>name = ''/dev/dsp'', fd = - 1, buf = None,
      info = \<lparr>channels = 0, sample_rate = 0, fmt = 0, precision = 0\<rparr>,
      frame_size = 0, floating = False\<rparr>"

definition s16_endpoint :: "int \<Rightarrow> oss_stream" where
  "s16_endpoint d =
     \<lparr>name = ''/dev/dsp'', fd = d, buf = Some (replicate 8 0),
      info = \<lparr>channels = 2, sample_rate = 48000, fmt = 16, precision = 16\<rparr>,
      frame_size = 4, floating = False\<rparr>"

definition play_only_stream :: cubeb_stream where
  "play_only_stream =
     \<lparr>thread = None, running = False, volume = 0,
      play = s16_endpoint 4, rec_strm = closed_endpoint,
      frames_written = 0, blocks_written = 0, nfr = 2\<rparr>"

text \<open>
  The queue capacity of a direction in the words of the specification: fragment count
  times fragment size, divided by the frame size of the direction; a query that is not
  supported reports nothing, which counts as zero frames.
\<close>

definition queue_capacity :: "(int \<times> int) option \<Rightarrow> nat \<Rightarrow> nat" where
  "queue_capacity bi fsize =
     (case bi of None \<Rightarrow> 0
      | Some (fragstotal, fragsize) \<Rightarrow> to_uint32 (fragstotal * fragsize) div fsize)"

text \<open>
  A system where every call succeeds: descriptors 3 (input) and 4 (output), negotiation
  that accepts what is asked, queues of 4 fragments of 256 bytes; and a 16-bit stereo
  request at 48 kHz.
\<close>

definition good_env :: init_env where
  "good_env =
     \<lparr>calloc_ok = (\<lambda>ob. True),
      dev_open = (\<lambda>n m. case m of O_RDONLY \<Rightarrow> 3 | O_WRONLY \<Rightarrow> 4),
      ioctl_setfmt = (\<lambda>d v. Some v), ioctl_channels = (\<lambda>d v. Some v),
      ioctl_speed = (\<lambda>d v. Some v), mutex_init_ok = True,
      ioctl_getospace = (\<lambda>d. Some (4, 256)), ioctl_getispace = (\<lambda>d. Some (4, 256))\<rparr>"

definition s16_params :: cubeb_stream_params where
  "s16_params = \<lparr>format = CUBEB_SAMPLE_S16LE, rate = 48000, p_channels = 2, prefs = 0\<rparr>"

text \<open>
  Running streams and environments of the I/O thread for the worked instances: a
  playback-only and a duplex 16-bit stereo stream of two frames a block; a callback that
  always returns \<open>k\<close> frames with a device that takes and gives all it is asked for; the
  same with a \<^verbatim>\<open>read\<close> that fails; and the same with a first \<^verbatim>\<open>write\<close> that takes
  3 bytes only.
\<close>

definition running_play_stream :: cubeb_stream where
  "running_play_stream = play_only_stream\<lparr>running := True\<rparr>"

definition running_duplex_stream :: cubeb_stream where
  "running_duplex_stream = play_only_stream\<lparr>running := True, rec_strm := s16_endpoint 3\<rparr>"

definition short_cb_env :: "int \<Rightarrow> io_env" where
  "short_cb_env k =
     \<lparr>data_cb = (\<lambda>i inb n. (k, [1, 2, 3, 4])),
      dev_write = (\<lambda>i d b. int b),
      dev_read = (\<lambda>i d b. Some (replicate b 0))\<rparr>"

definition read_error_env :: "int \<Rightarrow> io_env" where
  "read_error_env k = (short_cb_env k)\<lparr>dev_read := (\<lambda>i d b. None)\<rparr>"

definition partial_write_env :: "int \<Rightarrow> io_env" where
  "partial_write_env k = (short_cb_env k)\<lparr>dev_write := (\<lambda>i d b. if i = 0 then 3 else int b)\<rparr>"

text \<open>
  A running duplex stream of floating samples, one channel, two frames a block, at the
  volume 1.0; a callback that always fills the block with the samples 0.5 and -1.0; and a
  device that takes all it is asked for and delivers the 32-bit samples \<open>2 ^ 30\<close> and
  \<open>- (2 ^ 30)\<close>.
\<close>

definition f32_endpoint :: "int \<Rightarrow> oss_stream" where
  "f32_endpoint d =
     \<lparr>name = ''/dev/dsp'', fd = d, buf = Some [0, 0, 0, 0, 0, 0, 0, 0],
      info = \<lparr>channels = 1, sample_rate = 48000, fmt = 0x1000, precision = 32\<rparr>,
      frame_size = 4, floating = True\<rparr>"

definition running_float_stream :: cubeb_stream where
  "running_float_stream =
     \<lparr>thread = None, running = True, volume = 0x3F800000,
      play = f32_endpoint 4, rec_strm = f32_endpoint 3,
      frames_written = 0, blocks_written = 0, nfr = 2\<rparr>"

definition float_env :: io_env where
  "float_env =
     \<lparr>data_cb = (\<lambda>i inb n. (2, [0, 0, 0, 0x3F, 0, 0, 0x80, 0xBF])),
      dev_write = (\<lambda>i d b. int b),
      dev_read = (\<lambda>i d b. Some (take b [0, 0, 0, 0x40, 0, 0, 0, 0xC0]))\<rparr>"

definition running_record_stream :: cubeb_stream where
  "running_record_stream =
     play_only_stream\<lparr>running := True, play := closed_endpoint, rec_strm := s16_endpoint 3\<rparr>"

definition one_frame_ctx :: io_ctx where
  "one_frame_ctx = (io_start running_play_stream)\<lparr>to_write := 1\<rparr>"

definition idle_thread :: thread_effect where
  "idle_thread = \<lparr>te_frames_written = 0, te_play_buf = None, te_record_buf = None\<rparr>"

section \<open>Properties of the stream control operations\<close>

text \<open>
  C8. For every stream whose running flag is false, stop leaves the entire stream state
  unchanged and returns OK; and stop is idempotent: whatever the first call did, a second
  call in succession returns OK and changes nothing more.
\<close>

theorem oss_stream_stop_idempotent:
  "(\<not> running s \<longrightarrow> oss_stream_stop te s = (CUBEB_OK, s, [MutexLock, MutexUnlock]))
   \<and> fst (oss_stream_stop te s) = CUBEB_OK
   \<and> oss_stream_stop te' (fst (snd (oss_stream_stop te s)))
       = (CUBEB_OK, fst (snd (oss_stream_stop te s)), [MutexLock, MutexUnlock])"
  by (simp add: oss_stream_stop_def pthread_join_def)

theorem oss_stream_stop_idempotent_witness:
  "\<not> running play_only_stream
   \<and> oss_stream_stop idle_thread play_only_stream
       = (CUBEB_OK, play_only_stream, [MutexLock, MutexUnlock])
   \<and> oss_stream_stop idle_thread (fst (snd (oss_stream_stop idle_thread play_only_stream)))
       = (CUBEB_OK, play_only_stream, [MutexLock, MutexUnlock])"
  using oss_stream_stop_idempotent [of play_only_stream idle_thread idle_thread]
  by (simp add: play_only_stream_def)

text \<open>
  C4. Destruction calls stop unconditionally, and stop comes before every close and every
  free; but the stream's lock is destroyed first of all, before stop locks it and joins the
  I/O thread. The trace of a destruction is \<open>MutexDestroy\<close>, then all the calls of stop, then
  the releases.
\<close>

theorem oss_stream_destroy_order:
  "oss_stream_destroy te s =
     MutexDestroy # snd (snd (oss_stream_stop te s))
     @ drop (Suc (length (snd (snd (oss_stream_stop te s))))) (oss_stream_destroy te s)
   \<and> oss_stream_destroy te (s\<lparr>running := True\<rparr>) ! 0 = MutexDestroy
   \<and> oss_stream_destroy te (s\<lparr>running := True\<rparr>) ! 1 = MutexLock
   \<and> oss_stream_destroy te (s\<lparr>running := True\<rparr>) ! 3 = ThreadJoin (thread s)"
  by (simp add: oss_stream_destroy_def oss_stream_stop_def split: prod.splits)

text \<open>
  C5. When the thread cannot be created, start returns the generic error; the running flag,
  set before the attempt, stays set, so the stream is not as it was before the call: a
  following stop clears the flag and joins the thread handle, which no thread was ever
  created for.
\<close>

theorem oss_stream_start_failure_leaves_running:
  "oss_stream_start None s = (CUBEB_ERROR, s\<lparr>running := True\<rparr>, [])
   \<and> running (fst (snd (oss_stream_start None s)))
   \<and> snd (snd (oss_stream_stop te (fst (snd (oss_stream_start None s)))))
       = [MutexLock, MutexUnlock, ThreadJoin (thread s)]"
  by (simp add: oss_stream_start_def oss_stream_stop_def)

section \<open>Properties of the sample converters\<close>

text \<open>Evaluation of the floating-point unit at concrete patterns.\<close>

lemma bit_length_0: "bit_length 0 = 0"
  by (subst bit_length.simps) simp

lemma bit_length_1: "bit_length (Suc 0) = Suc 0"
  by (subst bit_length.simps) (simp add: bit_length_0)

lemma bit_length_numeral: "bit_length (numeral k) = Suc (bit_length (numeral k div 2))"
  by (subst bit_length.simps) simp

lemmas fpu_eval =
  bit_length_0 bit_length_1 bit_length_numeral ieee_qmin_def ieee_sign_def ieee_inf_def
  ieee_nan_def ieee_decode_def round_shift_def ieee_exp_def ieee_scale_def ieee_pack_def
  ieee_round_def quotient_sticky_def ieee_of_int_def f32_trunc_def fval_scaled_def
  f32_less_def f32_mul_def f32_of_int_def f32_to_int64_def f32_to_int32_def f64_mul_def
  f64_div_def f64_of_int_def f32_of_f64_def

lemma float_to_linear32_loop_length:
  "length (float_to_linear32_loop fp vol tail i b) = length b"
proof (induction fp vol tail i b rule: float_to_linear32_loop.induct)
  case (1 fp vol tail i b)
  then show ?case
    by (subst float_to_linear32_loop.simps) simp
qed

lemma float_to_linear32_loop_nth:
  "tail \<le> length b \<Longrightarrow>
   float_to_linear32_loop fp vol tail i b ! j =
     (if i \<le> j \<and> j < tail then float_to_linear32_sample fp vol (b ! j) else b ! j)"
proof (induction fp vol tail i b rule: float_to_linear32_loop.induct)
  case (1 fp vol tail i b)
  show ?case
  proof (cases "i < tail")
    case True
    with "1.prems" have "i < length b" by simp
    with True "1.IH" "1.prems" show ?thesis
      by (subst float_to_linear32_loop.simps) (auto simp: nth_list_update)
  next
    case False
    then show ?thesis
      by (subst float_to_linear32_loop.simps) auto
  qed
qed

text \<open>
  Rounding gives a number of the format back: the pattern of a finite \<^verbatim>\<open>float\<close> is the
  rounding of its value.
\<close>

lemma bit_length_le: "m < 2 ^ k \<Longrightarrow> bit_length m \<le> k"
proof (induction k arbitrary: m)
  case 0
  then show ?case by (subst bit_length.simps) simp
next
  case (Suc k)
  from Suc.prems have "m div 2 < 2 ^ k" by simp
  from Suc.IH [OF this] show ?case by (subst bit_length.simps) simp
qed

lemma bit_length_gt: "2 ^ k \<le> m \<Longrightarrow> k < bit_length m"
proof (induction k arbitrary: m)
  case 0
  then show ?case by (subst bit_length.simps) simp
next
  case (Suc k)
  from Suc.prems have "2 ^ k \<le> m div 2" by simp
  moreover from Suc.prems have "0 < m"
    using zero_less_power [of "2::nat" "Suc k"] by linarith
  ultimately show ?case using Suc.IH [of "m div 2"] by (subst bit_length.simps) simp
qed

lemma bit_length_eq: "2 ^ k \<le> m \<Longrightarrow> m < 2 ^ Suc k \<Longrightarrow> bit_length m = Suc k"
  using bit_length_le [of m "Suc k"] bit_length_gt [of k m] by simp

lemma f32_round_decode:
  assumes d: "ieee_decode 23 8 n = Finite s m e" and n: "n < 2 ^ 32"
  shows "ieee_round 23 8 s m e = n"
proof -
  define E where "E = n div 2 ^ 23 mod 2 ^ 8"
  define F where "F = n mod 2 ^ 23"
  define S where "S = (n div 2 ^ 31 mod 2 = 1)"
  have F: "F < 2 ^ 23" by (simp add: F_def)
  have E: "E < 2 ^ 8" by (simp add: E_def)
  have n': "n = (if S then 2 ^ 31 else 0) + E * 2 ^ 23 + F"
  proof -
    have "n div 2 ^ 31 < 2" using n by (simp add: less_mult_imp_div_less)
    then have "n div 2 ^ 31 = (if S then 1 else 0)" by (auto simp: S_def)
    moreover have "n div 2 ^ 23 = (n div 2 ^ 31) * 2 ^ 8 + E"
    proof -
      have "n div 2 ^ 31 = n div 2 ^ 23 div 2 ^ 8"
        by (simp add: div_mult2_eq [symmetric])
      then show ?thesis by (simp add: E_def)
    qed
    moreover have "n = (n div 2 ^ 23) * 2 ^ 23 + F" by (simp add: F_def)
    ultimately show ?thesis by auto
  qed
  show ?thesis
  proof (cases "E = 0")
    case True
    with d have s: "s = S" and m: "m = F" and e: "e = - 149"
      by (simp_all add: ieee_decode_def E_def F_def S_def ieee_qmin_def)
    show ?thesis
    proof (cases "F = 0")
      case True
      with n' \<open>E = 0\<close> s m show ?thesis by (simp add: ieee_round_def ieee_sign_def)
    next
      case False
      from bit_length_le [OF F] have "ieee_exp 23 8 F (- 149) = - 149"
        by (simp add: ieee_exp_def ieee_qmin_def)
      with False F n' \<open>E = 0\<close> s m e show ?thesis
        by (simp add: ieee_round_def ieee_sign_def ieee_pack_def ieee_scale_def ieee_qmin_def)
    qed
  next
    case False
    with d have E255: "E \<noteq> 255"
      by (auto simp: ieee_decode_def E_def split: if_splits)
    with False d have s: "s = S" and m: "m = 2 ^ 23 + F" and e: "e = int E - 150"
      by (simp_all add: ieee_decode_def E_def F_def S_def ieee_qmin_def)
    from F have "bit_length (2 ^ 23 + F) = Suc 23"
      by (intro bit_length_eq) simp_all
    with False have q: "ieee_exp 23 8 (2 ^ 23 + F) (int E - 150) = int E - 150"
      by (simp add: ieee_exp_def ieee_qmin_def)
    have "nat (int E - 150 + 149) = E - 1" by simp
    moreover have "(E - 1) * 2 ^ 23 + (2 ^ 23 + F) = E * 2 ^ 23 + F"
      using False by (cases E) simp_all
    moreover have "E * 2 ^ 23 + F < 255 * 2 ^ 23"
      using E E255 F by simp
    ultimately show ?thesis
      using n' s m e q
      by (simp add: ieee_round_def ieee_sign_def ieee_pack_def ieee_scale_def ieee_qmin_def)
  qed
qed

text \<open>
  Values of the unit: conversions that round, products that round to even, overflow
  to the infinity, become subnormal or vanish, the NaN of zero times infinity,
  truncation, the conversions out of range, comparisons, and the factor and some
  results of \<^verbatim>\<open>oss_linear32_to_float\<close>.
\<close>

lemma ieee_examples:
  "f32_of_int 1 = 0x3F800000" "f32_of_int (- 3) = 0xC0400000"
  "f32_of_int 0x8000 = 0x47000000" "f32_of_int 0x80000000 = 0x4F000000"
  "f32_of_int 16777217 = 0x4B800000" "f32_of_int 16777219 = 0x4B800002"
  "f32_mul 0x3F000000 0x3F800000 = 0x3F000000"
  "f32_mul 0x3F800001 0x3F800001 = 0x3F800002"
  "f32_mul 0x7F7FFFFF 0x40000000 = 0x7F800000"
  "f32_mul 0x00800000 0x3F000000 = 0x00400000"
  "f32_mul 0x00000003 0x3F000000 = 0x00000002"
  "f32_mul 0x00000001 0x00000001 = 0"
  "f32_mul 0x80000000 0x3F800000 = 0x80000000"
  "f32_mul 0x7F800000 0 = 0x7FC00000"
  "f32_trunc 0xBFC00000 = Some (- 1)" "f32_trunc 0x7F800000 = None"
  "f32_to_int64 0x5F000000 = 0x8000000000000000"
  "f32_to_int64 0xDF000000 = 0x8000000000000000"
  "f32_to_int64 0x5EFFFFFF = 0x7FFFFF8000000000"
  "f32_to_int32 0x4F000000 = 0x80000000"
  "f32_less 0xBF800000 0" "\<not> f32_less 0x80000000 0" "\<not> f32_less 0x7FC00000 0"
  "f32_less 0x3F800000 0x3F800001"
  "f64_div 0x3FF0000000000000 0x4008000000000000 = 0x3FD5555555555555"
  "f64_div (f64_of_int 1) (f64_of_int 0x80000000) = 0x3E00000000000000"
  "f32_of_f64 (f64_mul 0x3E00000000000000 (f64_of_int 0x7FFFFF40)) = 0x3F7FFFFE"
  "f32_of_f64 (f64_mul 0x3E00000000000000 (f64_of_int 0x7FFFFFC0)) = 0x3F800000"
  "f32_of_f64 (f64_mul 0x3E00000000000000 (f64_of_int (- 0x80000000))) = 0xBF800000"
  by (simp_all add: fpu_eval)

text \<open>
  On every unit: each of the first \<open>sample_count\<close> cells becomes the \<^verbatim>\<open>int64_t\<close> that the
  scaled product converts to, clamped to \<open>\<plusminus>(2 ^ 31 - 1)\<close>; the other cells stay.
\<close>

lemma oss_float_to_linear32_clamp:
  assumes "sample_count \<le> length b"
  shows "\<exists>out. oss_float_to_linear32 fp b sample_count vol = Inr out
           \<and> length out = length b
           \<and> (\<forall>i < sample_count.
                 sint (out ! i) =
                   max (- (2 ^ 31 - 1)) (min (2 ^ 31 - 1)
                     (sint (f_to_int64 fp (f_mul fp (f_mul fp (b ! i) vol) (f_of_uint fp (2 ^ 31))))))
                 \<and> - (2 ^ 31 - 1) \<le> sint (out ! i) \<and> sint (out ! i) \<le> 2 ^ 31 - 1)
           \<and> (\<forall>i. sample_count \<le> i \<longrightarrow> i < length b \<longrightarrow> out ! i = b ! i)"
proof -
  let ?out = "float_to_linear32_loop fp vol sample_count 0 b"
  have run: "oss_float_to_linear32 fp b sample_count vol = Inr ?out"
    using assms by (simp add: oss_float_to_linear32_def)
  have len: "length ?out = length b"
    by (rule float_to_linear32_loop_length)
  have first: "sint (?out ! i) =
                 max (- (2 ^ 31 - 1)) (min (2 ^ 31 - 1)
                   (sint (f_to_int64 fp (f_mul fp (f_mul fp (b ! i) vol) (f_of_uint fp (2 ^ 31))))))
               \<and> - (2 ^ 31 - 1) \<le> sint (?out ! i) \<and> sint (?out ! i) \<le> 2 ^ 31 - 1"
    if "i < sample_count" for i
  proof -
    define f where
      "f = sint (f_to_int64 fp (f_mul fp (f_mul fp (b ! i) vol) (f_of_uint fp (2 ^ 31))))"
    define g where "g = max (- (2 ^ 31 - 1)) (min (2 ^ 31 - 1) f)"
    have cell: "?out ! i = float_to_linear32_sample fp vol (b ! i)"
      using that assms by (simp add: float_to_linear32_loop_nth)
    have "float_to_linear32_sample fp vol (b ! i) = word_of_int g"
      by (simp add: float_to_linear32_sample_def Let_def f_def g_def INT32_MAX_def max_def min_def)
    moreover have "sint (word_of_int g :: 32 word) = g"
      by (simp add: g_def sint_sbintrunc' signed_take_bit_int_eq_self max_def min_def)
    ultimately have "sint (?out ! i) = g"
      using cell by simp
    moreover have "- (2 ^ 31 - 1) \<le> g \<and> g \<le> 2 ^ 31 - 1"
      by (simp add: g_def)
    ultimately show ?thesis
      by (simp add: g_def f_def)
  qed
  have rest: "?out ! i = b ! i" if "sample_count \<le> i" for i
    using that assms by (simp add: float_to_linear32_loop_nth)
  from run len first rest show ?thesis
    by blast
qed

lemma sint_int64_of:
  "- (2 ^ 63) \<le> z \<Longrightarrow> z < 2 ^ 63 \<Longrightarrow> sint (int64_of (Some z)) = z"
  by (simp add: sint_sbintrunc' signed_take_bit_int_eq_self)

text \<open>
  C9 (as the code has it). \<^verbatim>\<open>oss_float_to_linear32\<close> maps each of the first \<open>sample_count\<close>
  samples \<open>s\<close> whose scaled product, \<open>s\<close> times the volume times \<open>2 ^ 31\<close> in single
  precision, is finite and truncates to an integer \<open>z\<close> in the range of \<^verbatim>\<open>int64_t\<close>, to \<open>z\<close>
  clamped symmetrically to \<open>\<plusminus>(2 ^ 31 - 1)\<close>: the stored value saturates at the bounds and
  does not wrap. Samples beyond \<open>sample_count\<close> are left unchanged, and the buffer keeps its
  length.
\<close>

theorem oss_float_to_linear32_saturates:
  assumes "sample_count \<le> length b"
  shows "\<exists>out. oss_float_to_linear32 x86_fpu b sample_count vol = Inr out
           \<and> length out = length b
           \<and> (\<forall>i < sample_count. \<forall>z.
                 f32_trunc (f32_mul (f32_mul (b ! i) vol) (f32_of_int (2 ^ 31))) = Some z
                 \<and> - (2 ^ 63) \<le> z \<and> z < 2 ^ 63 \<longrightarrow>
                 sint (out ! i) = max (- (2 ^ 31 - 1)) (min (2 ^ 31 - 1) z))
           \<and> (\<forall>i. sample_count \<le> i \<longrightarrow> i < length b \<longrightarrow> out ! i = b ! i)"
proof -
  from oss_float_to_linear32_clamp [OF assms, of x86_fpu vol] obtain out where
    run: "oss_float_to_linear32 x86_fpu b sample_count vol = Inr out"
    and len: "length out = length b"
    and first: "\<And>i. i < sample_count \<Longrightarrow>
                  sint (out ! i) =
                    max (- (2 ^ 31 - 1)) (min (2 ^ 31 - 1)
                      (sint (f_to_int64 x86_fpu
                         (f_mul x86_fpu (f_mul x86_fpu (b ! i) vol) (f_of_uint x86_fpu (2 ^ 31))))))"
    and rest: "\<And>i. sample_count \<le> i \<Longrightarrow> i < length b \<Longrightarrow> out ! i = b ! i"
    by blast
  have "sint (out ! i) = max (- (2 ^ 31 - 1)) (min (2 ^ 31 - 1) z)"
    if i: "i < sample_count"
      and z: "f32_trunc (f32_mul (f32_mul (b ! i) vol) (f32_of_int (2 ^ 31))) = Some z"
        "- (2 ^ 63) \<le> z" "z < 2 ^ 63"
    for i z
  proof -
    have "sint (f_to_int64 x86_fpu
            (f_mul x86_fpu (f_mul x86_fpu (b ! i) vol) (f_of_uint x86_fpu (2 ^ 31)))) = z"
      using z sint_int64_of [OF z(2,3)] by (simp add: x86_fpu_def f32_to_int64_def)
    with first [OF i] show ?thesis by simp
  qed
  with run len rest show ?thesis
    by blast
qed

text \<open>
  An instance at the volume 1.0: the samples 0.5, -1.0 and 2.0 scale to \<open>2 ^ 30\<close>,
  \<open>- (2 ^ 31)\<close> and \<open>2 ^ 32\<close>, and are stored as \<open>2 ^ 30\<close>, \<open>- (2 ^ 31 - 1)\<close> and
  \<open>2 ^ 31 - 1\<close>; the fourth cell is beyond the count.
\<close>

theorem oss_float_to_linear32_saturates_witness:
  "(3::nat) \<le> length [0x3F000000, 0xBF800000, 0x40000000, 7 :: 32 word]
   \<and> f32_trunc (f32_mul (f32_mul 0x3F000000 0x3F800000) (f32_of_int (2 ^ 31))) = Some (2 ^ 30)
   \<and> f32_trunc (f32_mul (f32_mul 0xBF800000 0x3F800000) (f32_of_int (2 ^ 31))) = Some (- (2 ^ 31))
   \<and> f32_trunc (f32_mul (f32_mul 0x40000000 0x3F800000) (f32_of_int (2 ^ 31))) = Some (2 ^ 32)
   \<and> (\<exists>out. oss_float_to_linear32 x86_fpu [0x3F000000, 0xBF800000, 0x40000000, 7] 3 0x3F800000
               = Inr out
           \<and> out = [0x40000000, 0x80000001, 0x7FFFFFFF, 7]
           \<and> sint (out ! 0) = 2 ^ 30 \<and> sint (out ! 1) = - (2 ^ 31 - 1)
           \<and> sint (out ! 2) = 2 ^ 31 - 1 \<and> out ! 3 = 7)"
proof -
  let ?b = "[0x3F000000, 0xBF800000, 0x40000000, 7 :: 32 word]"
  have h: "(3::nat) \<le> length ?b"
    by simp
  have z0: "f32_trunc (f32_mul (f32_mul (?b ! 0) 0x3F800000) (f32_of_int (2 ^ 31))) = Some (2 ^ 30)"
    and z1: "f32_trunc (f32_mul (f32_mul (?b ! 1) 0x3F800000) (f32_of_int (2 ^ 31)))
               = Some (- (2 ^ 31))"
    and z2: "f32_trunc (f32_mul (f32_mul (?b ! 2) 0x3F800000) (f32_of_int (2 ^ 31))) = Some (2 ^ 32)"
    by (simp_all add: fpu_eval)
  have e: "oss_float_to_linear32 x86_fpu ?b 3 0x3F800000
             = Inr [0x40000000, 0x80000001, 0x7FFFFFFF, 7]"
    by (simp add: oss_float_to_linear32_def float_to_linear32_loop.simps
          float_to_linear32_sample_def x86_fpu_def fpu_eval INT32_MAX_def)
  from oss_float_to_linear32_saturates [OF h, of "0x3F800000"] obtain out where
    run: "oss_float_to_linear32 x86_fpu ?b 3 0x3F800000 = Inr out"
    and first: "\<And>i z. i < 3 \<Longrightarrow>
                  f32_trunc (f32_mul (f32_mul (?b ! i) 0x3F800000) (f32_of_int (2 ^ 31))) = Some z
                  \<Longrightarrow> - (2 ^ 63) \<le> z \<Longrightarrow> z < 2 ^ 63
                  \<Longrightarrow> sint (out ! i) = max (- (2 ^ 31 - 1)) (min (2 ^ 31 - 1) z)"
    and rest: "\<And>i. 3 \<le> i \<Longrightarrow> i < length ?b \<Longrightarrow> out ! i = ?b ! i"
    by blast
  from run e have out: "out = [0x40000000, 0x80000001, 0x7FFFFFFF, 7]"
    by simp
  have s0: "sint (out ! 0) = 2 ^ 30"
    using first [OF _ z0] by simp
  have s1: "sint (out ! 1) = - (2 ^ 31 - 1)"
    using first [OF _ z1] by simp
  have s2: "sint (out ! 2) = 2 ^ 31 - 1"
    using first [OF _ z2] by simp
  have s3: "out ! 3 = 7"
    using rest [of 3] by simp
  from z0 z1 z2 have z:
    "f32_trunc (f32_mul (f32_mul 0x3F000000 0x3F800000) (f32_of_int (2 ^ 31))) = Some (2 ^ 30)"
    "f32_trunc (f32_mul (f32_mul 0xBF800000 0x3F800000) (f32_of_int (2 ^ 31))) = Some (- (2 ^ 31))"
    "f32_trunc (f32_mul (f32_mul 0x40000000 0x3F800000) (f32_of_int (2 ^ 31))) = Some (2 ^ 32)"
    by simp_all
  from h z run out s0 s1 s2 s3 show ?thesis
    by (intro conjI exI [of _ out])
qed

text \<open>
  C9 as stated fails for a sample whose scaled product is out of the range of \<^verbatim>\<open>int64_t\<close>:
  at the volume 1.0 the samples \<open>2 ^ 40\<close> and \<open>+\<infinity>\<close>, and a NaN, are stored as
  \<open>- (2 ^ 31 - 1)\<close>, the negative bound, as is \<open>- (2 ^ 40)\<close>.
\<close>

theorem oss_float_to_linear32_saturates_counterexample:
  "oss_float_to_linear32 x86_fpu [0x53800000, 0x7F800000, 0x7FC00000, 0xD3800000] 4 0x3F800000
     = Inr [0x80000001, 0x80000001, 0x80000001, 0x80000001]
   \<and> f32_trunc (f32_mul (f32_mul 0x53800000 0x3F800000) (f32_of_int (2 ^ 31))) = Some (2 ^ 71)
   \<and> sint (0x80000001 :: 32 word) = - (2 ^ 31 - 1)"
  by (simp add: oss_float_to_linear32_def float_to_linear32_loop.simps
        float_to_linear32_sample_def x86_fpu_def fpu_eval INT32_MAX_def)

section \<open>Properties of stream construction\<close>

lemmas init_eval =
  oss_stream_init_def init_direction_def oss_copy_params_def queue_nfr_def init_buf_def
  init_error_def oss_stream_destroy_def oss_stream_stop_def new_stream_def zero_endpoint_def
  good_env_def s16_params_def to_int32_def to_uint32_def Let_def
  CUBEB_OK_def CUBEB_ERROR_def CUBEB_SAMPLE_FLOAT32NE_def CUBEB_STREAM_PREF_LOOPBACK_def
  AFMT_S16_LE_def OSS_DEFAULT_DEVICE_def OSS_DEFAULT_NFRAMES_def OSS_DEVNODE_SIZE_def

lemma init_direction_Inr:
  "init_direction env mode p ret e = Inr (r, e', evs) \<Longrightarrow> fd e = - 1 \<Longrightarrow>
   (fd e' \<noteq> - 1 \<longleftrightarrow> p \<noteq> None) \<and> r = (case p of None \<Rightarrow> ret | Some q \<Rightarrow> CUBEB_OK)
   \<and> frame_size e' = frame_size e \<and> buf e' = buf e"
  by (auto simp: init_direction_def Let_def split: option.splits if_splits prod.splits)

lemma queue_nfr_Inr:
  "queue_nfr d bi fsize = Inr n \<Longrightarrow>
   n = (if d \<noteq> - 1 then max 1 (queue_capacity bi fsize) else 1)"
  by (auto simp: queue_nfr_def queue_capacity_def Let_def split: option.splits if_splits prod.splits)

lemma init_buf_Some:
  "init_buf env ob n e = Some e' \<Longrightarrow>
   fd e' = fd e \<and> frame_size e' = frame_size e \<and> info e' = info e
   \<and> (fd e \<noteq> - 1 \<longrightarrow> buf e' = Some (replicate (n * frame_size e) 0))"
  by (auto simp: init_buf_def split: if_splits)

lemma oss_stream_init_ok_stages:
  assumes ok: "oss_stream_init env input_device input_stream_params output_device
                 output_stream_params = Inr (CUBEB_OK, Some s, evs)"
  shows "\<exists>e1 evs1 e2 evs2 fp fr playnfr recnfr n e3 e4.
           init_direction env O_RDONLY input_stream_params CUBEB_OK
             (rec_strm (new_stream input_device output_device)) = Inr (CUBEB_OK, e1, evs1)
         \<and> init_direction env O_WRONLY output_stream_params CUBEB_OK
             (play (new_stream input_device output_device)) = Inr (CUBEB_OK, e2, evs2)
         \<and> mutex_init_ok env
         \<and> fp = to_uint32 (channels (info e2) * (precision (info e2) div 8))
         \<and> fr = to_uint32 (channels (info e1) * (precision (info e1) div 8))
         \<and> queue_nfr (fd e2) (ioctl_getospace env (fd e2)) fp = Inr playnfr
         \<and> queue_nfr (fd e1) (ioctl_getispace env (fd e1)) fr = Inr recnfr
         \<and> n = (if fd e2 \<noteq> - 1 \<and> fd e1 \<noteq> - 1
                  then (if playnfr < recnfr then playnfr else recnfr)
                  else if fd e2 \<noteq> - 1 then playnfr
                  else if fd e1 \<noteq> - 1 then recnfr else OSS_DEFAULT_NFRAMES)
         \<and> init_buf env ObjPlayBuf n (e2\<lparr>frame_size := fp\<rparr>) = Some e3
         \<and> init_buf env ObjRecordBuf n (e1\<lparr>frame_size := fr\<rparr>) = Some e4
         \<and> s = (new_stream input_device output_device)
                 \<lparr>rec_strm := e4, play := e3, volume := FLOAT_ONE, nfr := n\<rparr>"
proof -
  let ?s0 = "new_stream input_device output_device"
  note d = oss_stream_init_def Let_def init_error_def
  have c0: "calloc_ok env ObjStream"
  proof (rule ccontr)
    assume "\<not> calloc_ok env ObjStream"
    with ok show False by (simp add: d)
  qed
  obtain r1 e1 evs1 where
    d1: "init_direction env O_RDONLY input_stream_params CUBEB_OK (rec_strm ?s0) = Inr (r1, e1, evs1)"
  proof (cases "init_direction env O_RDONLY input_stream_params CUBEB_OK (rec_strm ?s0)")
    case (Inl x)
    with ok c0 show ?thesis by (cases x) (simp add: d)
  next
    case (Inr y)
    with that show ?thesis by (cases y) auto
  qed
  have fd0: "fd (rec_strm ?s0) = - 1" "fd (play ?s0) = - 1"
    by (simp_all add: new_stream_def zero_endpoint_def)
  from init_direction_Inr [OF d1 fd0(1)] have r1: "r1 = CUBEB_OK"
    by (simp split: option.splits)
  obtain r2 e2 evs2 where
    d2: "init_direction env O_WRONLY output_stream_params CUBEB_OK (play ?s0) = Inr (r2, e2, evs2)"
  proof (cases "init_direction env O_WRONLY output_stream_params CUBEB_OK (play ?s0)")
    case (Inl x)
    with ok c0 d1 r1 show ?thesis by (cases x) (simp add: d)
  next
    case (Inr y)
    with that show ?thesis by (cases y) auto
  qed
  from init_direction_Inr [OF d2 fd0(2)] have r2: "r2 = CUBEB_OK"
    by (simp split: option.splits)
  have m: "mutex_init_ok env"
  proof (rule ccontr)
    assume "\<not> mutex_init_ok env"
    with ok c0 d1 r1 d2 r2 show False by (simp add: d)
  qed
  let ?fp = "to_uint32 (channels (info e2) * (precision (info e2) div 8))"
  let ?fr = "to_uint32 (channels (info e1) * (precision (info e1) div 8))"
  obtain playnfr where q1: "queue_nfr (fd e2) (ioctl_getospace env (fd e2)) ?fp = Inr playnfr"
  proof (cases "queue_nfr (fd e2) (ioctl_getospace env (fd e2)) ?fp")
    case (Inl t)
    with ok c0 d1 r1 d2 r2 m show ?thesis by (simp add: d)
  next
    case (Inr y)
    with that show ?thesis by auto
  qed
  obtain recnfr where q2: "queue_nfr (fd e1) (ioctl_getispace env (fd e1)) ?fr = Inr recnfr"
  proof (cases "queue_nfr (fd e1) (ioctl_getispace env (fd e1)) ?fr")
    case (Inl t)
    with ok c0 d1 r1 d2 r2 m q1 show ?thesis by (simp add: d)
  next
    case (Inr y)
    with that show ?thesis by auto
  qed
  let ?n = "if fd e2 \<noteq> - 1 \<and> fd e1 \<noteq> - 1
            then (if playnfr < recnfr then playnfr else recnfr)
            else if fd e2 \<noteq> - 1 then playnfr
            else if fd e1 \<noteq> - 1 then recnfr else nfr ?s0"
  obtain e3 where b1: "init_buf env ObjPlayBuf ?n (e2\<lparr>frame_size := ?fp\<rparr>) = Some e3"
  proof (cases "init_buf env ObjPlayBuf ?n (e2\<lparr>frame_size := ?fp\<rparr>)")
    case None
    with ok c0 d1 r1 d2 r2 m q1 q2 show ?thesis by (simp add: d cong: if_cong)
  next
    case (Some y)
    with that show ?thesis by auto
  qed
  obtain e4 where b2: "init_buf env ObjRecordBuf ?n (e1\<lparr>frame_size := ?fr\<rparr>) = Some e4"
  proof (cases "init_buf env ObjRecordBuf ?n (e1\<lparr>frame_size := ?fr\<rparr>)")
    case None
    with ok c0 d1 r1 d2 r2 m q1 q2 b1 show ?thesis by (simp add: d cong: if_cong)
  next
    case (Some y)
    with that show ?thesis by auto
  qed
  have nfr0: "nfr ?s0 = OSS_DEFAULT_NFRAMES"
    by (simp add: new_stream_def)
  have s: "s = ?s0\<lparr>rec_strm := e4, play := e3, volume := FLOAT_ONE, nfr := ?n\<rparr>"
    using ok c0 d1 r1 d2 r2 m q1 q2 b1 b2 by (simp add: d cong: if_cong del: if_split) auto
  show ?thesis
    using d1 [unfolded r1] d2 [unfolded r2] m q1 q2 b1 [unfolded nfr0] b2 [unfolded nfr0]
      s [unfolded nfr0]
    by blast
qed

text \<open>
  C1 (as the code has it). When construction succeeds, the block size \<open>nfr\<close> is: with both
  directions active, the minimum of the two queue capacities, each floored at 1 frame;
  with one direction active, its capacity floored at 1 frame, a capacity of zero and an
  unsupported query both giving 1 frame; and the fixed 32 frames only when no direction
  is active. A direction is active exactly when its parameters were given, and its frame
  size is channels times bytes per sample.
\<close>

theorem oss_stream_init_nfr:
  assumes ok: "oss_stream_init env input_device input_stream_params output_device
                 output_stream_params = Inr (CUBEB_OK, Some s, evs)"
  shows "nfr s =
           (if fd (play s) \<noteq> - 1 \<and> fd (rec_strm s) \<noteq> - 1
            then min (max 1 (queue_capacity (ioctl_getospace env (fd (play s))) (frame_size (play s))))
                     (max 1 (queue_capacity (ioctl_getispace env (fd (rec_strm s)))
                                (frame_size (rec_strm s))))
            else if fd (play s) \<noteq> - 1
            then max 1 (queue_capacity (ioctl_getospace env (fd (play s))) (frame_size (play s)))
            else if fd (rec_strm s) \<noteq> - 1
            then max 1 (queue_capacity (ioctl_getispace env (fd (rec_strm s)))
                          (frame_size (rec_strm s)))
            else OSS_DEFAULT_NFRAMES)
         \<and> (fd (play s) \<noteq> - 1 \<longleftrightarrow> output_stream_params \<noteq> None)
         \<and> (fd (rec_strm s) \<noteq> - 1 \<longleftrightarrow> input_stream_params \<noteq> None)
         \<and> frame_size (play s)
             = to_uint32 (channels (info (play s)) * (precision (info (play s)) div 8))
         \<and> frame_size (rec_strm s)
             = to_uint32 (channels (info (rec_strm s)) * (precision (info (rec_strm s)) div 8))"
proof -
  let ?s0 = "new_stream input_device output_device"
  from oss_stream_init_ok_stages [OF ok]
  obtain e1 evs1 e2 evs2 playnfr recnfr e3 e4 where
    d1: "init_direction env O_RDONLY input_stream_params CUBEB_OK (rec_strm ?s0)
           = Inr (CUBEB_OK, e1, evs1)" and
    d2: "init_direction env O_WRONLY output_stream_params CUBEB_OK (play ?s0)
           = Inr (CUBEB_OK, e2, evs2)" and
    q1: "queue_nfr (fd e2) (ioctl_getospace env (fd e2))
           (to_uint32 (channels (info e2) * (precision (info e2) div 8))) = Inr playnfr" and
    q2: "queue_nfr (fd e1) (ioctl_getispace env (fd e1))
           (to_uint32 (channels (info e1) * (precision (info e1) div 8))) = Inr recnfr" and
    b1: "init_buf env ObjPlayBuf
           (if fd e2 \<noteq> - 1 \<and> fd e1 \<noteq> - 1
            then (if playnfr < recnfr then playnfr else recnfr)
            else if fd e2 \<noteq> - 1 then playnfr
            else if fd e1 \<noteq> - 1 then recnfr else OSS_DEFAULT_NFRAMES)
           (e2\<lparr>frame_size := to_uint32 (channels (info e2) * (precision (info e2) div 8))\<rparr>)
           = Some e3" and
    b2: "init_buf env ObjRecordBuf
           (if fd e2 \<noteq> - 1 \<and> fd e1 \<noteq> - 1
            then (if playnfr < recnfr then playnfr else recnfr)
            else if fd e2 \<noteq> - 1 then playnfr
            else if fd e1 \<noteq> - 1 then recnfr else OSS_DEFAULT_NFRAMES)
           (e1\<lparr>frame_size := to_uint32 (channels (info e1) * (precision (info e1) div 8))\<rparr>)
           = Some e4" and
    s: "s = ?s0\<lparr>rec_strm := e4, play := e3, volume := FLOAT_ONE,
               nfr := (if fd e2 \<noteq> - 1 \<and> fd e1 \<noteq> - 1
                       then (if playnfr < recnfr then playnfr else recnfr)
                       else if fd e2 \<noteq> - 1 then playnfr
                       else if fd e1 \<noteq> - 1 then recnfr else OSS_DEFAULT_NFRAMES)\<rparr>"
    by blast
  have fd0: "fd (rec_strm ?s0) = - 1" "fd (play ?s0) = - 1"
    by (simp_all add: new_stream_def zero_endpoint_def)
  note a1 = init_direction_Inr [OF d1 fd0(1)] and a2 = init_direction_Inr [OF d2 fd0(2)]
  note p3 = init_buf_Some [OF b1] and p4 = init_buf_Some [OF b2]
  have e3: "fd e3 = fd e2" "info e3 = info e2"
    "frame_size e3 = to_uint32 (channels (info e2) * (precision (info e2) div 8))"
    using p3 by simp_all
  have e4: "fd e4 = fd e1" "info e4 = info e1"
    "frame_size e4 = to_uint32 (channels (info e1) * (precision (info e1) div 8))"
    using p4 by simp_all
  have n1: "playnfr = (if fd e2 \<noteq> - 1
              then max 1 (queue_capacity (ioctl_getospace env (fd e2)) (frame_size e3)) else 1)"
    using queue_nfr_Inr [OF q1] e3 by simp
  have n2: "recnfr = (if fd e1 \<noteq> - 1
              then max 1 (queue_capacity (ioctl_getispace env (fd e1)) (frame_size e4)) else 1)"
    using queue_nfr_Inr [OF q2] e4 by simp
  have sel: "play s = e3" "rec_strm s = e4"
    "nfr s = (if fd e2 \<noteq> - 1 \<and> fd e1 \<noteq> - 1
              then (if playnfr < recnfr then playnfr else recnfr)
              else if fd e2 \<noteq> - 1 then playnfr
              else if fd e1 \<noteq> - 1 then recnfr else OSS_DEFAULT_NFRAMES)"
    by (simp_all add: s)
  have c1: "nfr s =
           (if fd (play s) \<noteq> - 1 \<and> fd (rec_strm s) \<noteq> - 1
            then min (max 1 (queue_capacity (ioctl_getospace env (fd (play s))) (frame_size (play s))))
                     (max 1 (queue_capacity (ioctl_getispace env (fd (rec_strm s)))
                                (frame_size (rec_strm s))))
            else if fd (play s) \<noteq> - 1
            then max 1 (queue_capacity (ioctl_getospace env (fd (play s))) (frame_size (play s)))
            else if fd (rec_strm s) \<noteq> - 1
            then max 1 (queue_capacity (ioctl_getispace env (fd (rec_strm s)))
                          (frame_size (rec_strm s)))
            else OSS_DEFAULT_NFRAMES)"
    unfolding sel e3(1) e4(1) using n1 n2 by (auto simp: min_def max_def)
  have c2: "fd (play s) \<noteq> - 1 \<longleftrightarrow> output_stream_params \<noteq> None"
    using a2 by (simp add: sel e3)
  have c3: "fd (rec_strm s) \<noteq> - 1 \<longleftrightarrow> input_stream_params \<noteq> None"
    using a1 by (simp add: sel e4)
  have c4: "frame_size (play s)
             = to_uint32 (channels (info (play s)) * (precision (info (play s)) div 8))"
    by (simp add: sel e3)
  have c5: "frame_size (rec_strm s)
             = to_uint32 (channels (info (rec_strm s)) * (precision (info (rec_strm s)) div 8))"
    by (simp add: sel e4)
  from c1 c2 c3 c4 c5 show ?thesis by blast
qed

theorem oss_stream_init_nfr_witness:
  "\<exists>s evs. oss_stream_init good_env None None None (Some s16_params)
             = Inr (CUBEB_OK, Some s, evs)
           \<and> fd (play s) = 4 \<and> fd (rec_strm s) = - 1 \<and> frame_size (play s) = 4
           \<and> nfr s = max 1 (queue_capacity (ioctl_getospace good_env 4) 4)
           \<and> nfr s = 256"
proof -
  have "\<exists>s evs. oss_stream_init good_env None None None (Some s16_params)
                 = Inr (CUBEB_OK, Some s, evs)
               \<and> fd (play s) = 4 \<and> fd (rec_strm s) = - 1 \<and> frame_size (play s) = 4"
    by (simp add: init_eval)
  then obtain s evs where
    ok: "oss_stream_init good_env None None None (Some s16_params) = Inr (CUBEB_OK, Some s, evs)"
    and e: "fd (play s) = 4" "fd (rec_strm s) = - 1" "frame_size (play s) = 4"
    by blast
  have q: "queue_capacity (ioctl_getospace good_env 4) 4 = 256"
    by (simp add: queue_capacity_def good_env_def to_uint32_def)
  from oss_stream_init_nfr [OF ok] e
  have "nfr s = max 1 (queue_capacity (ioctl_getospace good_env 4) 4)"
    by simp
  with ok e q show ?thesis
    by auto
qed

text \<open>
  C1 as stated fails: on a playback-only stream whose device does not support the
  queue-depth query, or reports a queue of zero bytes, construction succeeds with a block
  size of 1 frame, not the 32 frames of the default.
\<close>

theorem oss_stream_init_nfr_counterexample:
  "(\<exists>s evs. oss_stream_init (good_env\<lparr>ioctl_getospace := (\<lambda>d. None)\<rparr>)
               None None None (Some s16_params) = Inr (CUBEB_OK, Some s, evs)
            \<and> fd (play s) = 4 \<and> nfr s = 1)
   \<and> (\<exists>s evs. oss_stream_init (good_env\<lparr>ioctl_getospace := (\<lambda>d. Some (0, 256))\<rparr>)
               None None None (Some s16_params) = Inr (CUBEB_OK, Some s, evs)
            \<and> fd (play s) = 4 \<and> nfr s = 1)
   \<and> OSS_DEFAULT_NFRAMES = 32"
  by (simp add: init_eval)

text \<open>
  The result code of a construction that fails. The output pointer is written only with
  \<open>CUBEB_OK\<close>; and a construction that leaves it unset returns an error code on every
  path but one, the failure to create the mutex.
\<close>

lemma init_direction_Inl:
  "init_direction env mode p ret e = Inl (r, e', evs) \<Longrightarrow> r \<noteq> CUBEB_OK"
  by (auto simp: init_direction_def Let_def CUBEB_OK_def CUBEB_ERROR_NOT_SUPPORTED_def
      CUBEB_ERROR_DEVICE_UNAVAILABLE_def split: option.splits if_splits prod.splits)

lemma oss_stream_init_failure:
  assumes res: "oss_stream_init env input_device input_stream_params output_device
                  output_stream_params = Inr (r, so, evs)"
  shows "(so \<noteq> None \<longrightarrow> r = CUBEB_OK)
         \<and> (so = None \<and> r = CUBEB_OK \<longrightarrow> calloc_ok env ObjStream \<and> \<not> mutex_init_ok env)"
proof (cases "calloc_ok env ObjStream")
  case False
  with res show ?thesis
    by (simp add: oss_stream_init_def CUBEB_OK_def CUBEB_ERROR_def)
next
  case c0: True
  let ?s0 = "new_stream input_device output_device"
  note d = oss_stream_init_def Let_def init_error_def
  have fd0: "fd (rec_strm ?s0) = - 1" "fd (play ?s0) = - 1"
    by (simp_all add: new_stream_def zero_endpoint_def)
  show ?thesis
  proof (cases "init_direction env O_RDONLY input_stream_params CUBEB_OK (rec_strm ?s0)")
    case (Inl x)
    obtain r1 e1 evs1 where x: "x = (r1, e1, evs1)" by (cases x)
    from init_direction_Inl [OF Inl [unfolded x]] res c0 Inl x show ?thesis
      by (auto simp: d)
  next
    case (Inr y)
    obtain r1 e1 evs1 where y: "y = (r1, e1, evs1)" by (cases y)
    note d1 = Inr [unfolded y]
    from init_direction_Inr [OF d1 fd0(1)] have r1: "r1 = CUBEB_OK"
      by (simp split: option.splits)
    show ?thesis
    proof (cases "init_direction env O_WRONLY output_stream_params CUBEB_OK (play ?s0)")
      case (Inl x)
      obtain r2 e2 evs2 where x: "x = (r2, e2, evs2)" by (cases x)
      from init_direction_Inl [OF Inl [unfolded x]] res c0 d1 r1 Inl x show ?thesis
        by (auto simp: d)
    next
      case (Inr z)
      obtain r2 e2 evs2 where z: "z = (r2, e2, evs2)" by (cases z)
      note d2 = Inr [unfolded z]
      from init_direction_Inr [OF d2 fd0(2)] have r2: "r2 = CUBEB_OK"
        by (simp split: option.splits)
      show ?thesis
      proof (cases "mutex_init_ok env")
        case False
        with res c0 d1 r1 d2 r2 show ?thesis by (auto simp: d)
      next
        case m: True
        let ?fp = "to_uint32 (channels (info e2) * (precision (info e2) div 8))"
        let ?fr = "to_uint32 (channels (info e1) * (precision (info e1) div 8))"
        obtain playnfr where
          q1: "queue_nfr (fd e2) (ioctl_getospace env (fd e2)) ?fp = Inr playnfr"
        proof (cases "queue_nfr (fd e2) (ioctl_getospace env (fd e2)) ?fp")
          case (Inl t)
          with res c0 d1 r1 d2 r2 m show ?thesis by (simp add: d)
        next
          case (Inr y)
          with that show ?thesis by auto
        qed
        obtain recnfr where
          q2: "queue_nfr (fd e1) (ioctl_getispace env (fd e1)) ?fr = Inr recnfr"
        proof (cases "queue_nfr (fd e1) (ioctl_getispace env (fd e1)) ?fr")
          case (Inl t)
          with res c0 d1 r1 d2 r2 m q1 show ?thesis by (simp add: d)
        next
          case (Inr y)
          with that show ?thesis by auto
        qed
        let ?n = "if fd e2 \<noteq> - 1 \<and> fd e1 \<noteq> - 1
                  then (if playnfr < recnfr then playnfr else recnfr)
                  else if fd e2 \<noteq> - 1 then playnfr
                  else if fd e1 \<noteq> - 1 then recnfr else nfr ?s0"
        show ?thesis
        proof (cases "init_buf env ObjPlayBuf ?n (e2\<lparr>frame_size := ?fp\<rparr>)")
          case None
          with res c0 d1 r1 d2 r2 m q1 q2 have "r = CUBEB_ERROR" "so = None"
            by (simp_all add: d cong: if_cong)
          then show ?thesis by (simp add: CUBEB_OK_def CUBEB_ERROR_def)
        next
          case b1: (Some e3)
          show ?thesis
          proof (cases "init_buf env ObjRecordBuf ?n (e1\<lparr>frame_size := ?fr\<rparr>)")
            case None
            with res c0 d1 r1 d2 r2 m q1 q2 b1 have "r = CUBEB_ERROR" "so = None"
              by (simp_all add: d cong: if_cong)
            then show ?thesis by (simp add: CUBEB_OK_def CUBEB_ERROR_def)
          next
            case (Some e4)
            with res c0 d1 r1 d2 r2 m q1 q2 b1 have "r = CUBEB_OK" "so \<noteq> None"
              by (auto simp: d cong: if_cong)
            then show ?thesis by auto
          qed
        qed
      qed
    qed
  qed
qed

text \<open>
  C3. A failure of stream construction returns an error code, releases what was acquired
  and leaves the output pointer unset. On the failure to create the mutex the code jumps
  to the error label without setting \<open>ret\<close>: the stream is destroyed (the device handle
  closed, the stream freed), the pointer is unset, and the call returns \<open>CUBEB_OK\<close>.
\<close>

theorem oss_stream_init_mutex_failure_returns_ok:
  "oss_stream_init (good_env\<lparr>mutex_init_ok := False\<rparr>) None None None (Some s16_params)
     = Inr (CUBEB_OK, None,
            [Alloc ObjStream, DevOpen 4, MutexDestroy, MutexLock, MutexUnlock, DevClose 4,
             FreeNull, FreeNull, Free ObjStream])"
  by (simp add: init_eval)

text \<open>
  What the I/O routine is given. A stream that construction returns is \<open>stream_ok\<close> as
  soon as the channel count the device has settled on is positive and below \<open>2 ^ 30\<close> in
  each open direction: the frame size is then the channel count times the sample size, and
  each buffer holds \<open>nfr\<close> frames. The duplex 16-bit stream on the system where every call
  succeeds is an instance.
\<close>

lemma to_uint32_small: "0 \<le> x \<Longrightarrow> x < 2 ^ 32 \<Longrightarrow> to_uint32 x = nat x"
  by (simp add: to_uint32_def)

lemma to_uint32_less: "to_uint32 x < 2 ^ 32"
proof -
  have "0 \<le> x mod 2 ^ 32" "x mod 2 ^ 32 < 2 ^ 32" by simp_all
  then show ?thesis by (simp add: to_uint32_def nat_less_iff)
qed

lemma queue_nfr_less:
  assumes "queue_nfr d bi fsize = Inr n"
  shows "n < 2 ^ 32"
proof -
  have "to_uint32 x div fsize < 2 ^ 32" for x
    using to_uint32_less [of x] div_le_dividend [of "to_uint32 x" fsize] by linarith
  with assms show ?thesis
    by (auto simp: queue_nfr_def Let_def split: option.splits if_splits prod.splits)
qed

lemma init_direction_endpoint:
  assumes d: "init_direction env mode p CUBEB_OK e0 = Inr (r, e, evs)"
    and e0: "fd e0 = - 1" "buf e0 = None"
  shows "buf e = None \<and> (fd e \<noteq> - 1 \<longrightarrow> precision (info e) = (if floating e then 32 else 16))"
proof (cases p)
  case None
  with d e0 show ?thesis by (simp add: init_direction_def)
next
  case (Some params)
  let ?e = "e0\<lparr>fd := dev_open env (name e0) mode\<rparr>"
  from d Some e0 obtain sinfo where
    cp: "oss_copy_params env (fd ?e) params (info e0) = (CUBEB_OK, sinfo)"
    and e: "e = ?e\<lparr>info := sinfo, floating := (format params = CUBEB_SAMPLE_FLOAT32NE)\<rparr>"
    by (auto simp: init_direction_def Let_def split: if_splits prod.splits)
  from cp have "precision sinfo = (if format params = CUBEB_SAMPLE_FLOAT32NE then 32 else 16)"
    by (auto simp: oss_copy_params_def Let_def CUBEB_OK_def CUBEB_ERROR_def
        CUBEB_ERROR_INVALID_FORMAT_def CUBEB_SAMPLE_FLOAT32NE_def
        split: if_splits option.splits)
  with e e0 show ?thesis by simp
qed

lemma oss_stream_init_stream_ok:
  assumes ok: "oss_stream_init env input_device input_stream_params output_device
                 output_stream_params = Inr (CUBEB_OK, Some s, evs)"
    and cp: "fd (play s) \<noteq> - 1 \<Longrightarrow>
               0 < channels (info (play s)) \<and> channels (info (play s)) < 2 ^ 30"
    and cr: "fd (rec_strm s) \<noteq> - 1 \<Longrightarrow>
               0 < channels (info (rec_strm s)) \<and> channels (info (rec_strm s)) < 2 ^ 30"
  shows "stream_ok s"
proof -
  let ?s0 = "new_stream input_device output_device"
  from oss_stream_init_ok_stages [OF ok]
  obtain e1 evs1 e2 evs2 fp fr playnfr recnfr n e3 e4 where
    d1: "init_direction env O_RDONLY input_stream_params CUBEB_OK (rec_strm ?s0)
           = Inr (CUBEB_OK, e1, evs1)" and
    d2: "init_direction env O_WRONLY output_stream_params CUBEB_OK (play ?s0)
           = Inr (CUBEB_OK, e2, evs2)" and
    fp: "fp = to_uint32 (channels (info e2) * (precision (info e2) div 8))" and
    fr: "fr = to_uint32 (channels (info e1) * (precision (info e1) div 8))" and
    q1: "queue_nfr (fd e2) (ioctl_getospace env (fd e2)) fp = Inr playnfr" and
    q2: "queue_nfr (fd e1) (ioctl_getispace env (fd e1)) fr = Inr recnfr" and
    n: "n = (if fd e2 \<noteq> - 1 \<and> fd e1 \<noteq> - 1
             then (if playnfr < recnfr then playnfr else recnfr)
             else if fd e2 \<noteq> - 1 then playnfr
             else if fd e1 \<noteq> - 1 then recnfr else OSS_DEFAULT_NFRAMES)" and
    b1: "init_buf env ObjPlayBuf n (e2\<lparr>frame_size := fp\<rparr>) = Some e3" and
    b2: "init_buf env ObjRecordBuf n (e1\<lparr>frame_size := fr\<rparr>) = Some e4" and
    s: "s = ?s0\<lparr>rec_strm := e4, play := e3, volume := FLOAT_ONE, nfr := n\<rparr>"
    by blast
  have z: "fd (rec_strm ?s0) = - 1" "buf (rec_strm ?s0) = None"
    "fd (play ?s0) = - 1" "buf (play ?s0) = None" "frames_written ?s0 = 0"
    by (simp_all add: new_stream_def zero_endpoint_def)
  have nn: "n < 2 ^ 32"
    using queue_nfr_less [OF q1] queue_nfr_less [OF q2]
    by (simp add: n OSS_DEFAULT_NFRAMES_def)
  have ep: "endpoint_ok n e'"
    if d: "init_direction env mode p CUBEB_OK e0 = Inr (CUBEB_OK, e, evs')"
      and e0: "fd e0 = - 1" "buf e0 = None"
      and f: "f = to_uint32 (channels (info e) * (precision (info e) div 8))"
      and b: "init_buf env ob n (e\<lparr>frame_size := f\<rparr>) = Some e'"
      and ch: "fd e' \<noteq> - 1 \<Longrightarrow> 0 < channels (info e') \<and> channels (info e') < 2 ^ 30"
    for mode p e0 e evs' f ob e'
  proof (cases "fd e = - 1")
    case True
    with init_buf_Some [OF b] show ?thesis by (simp add: endpoint_ok_def)
  next
    case False
    from b False have e': "e' = e\<lparr>frame_size := f, buf := Some (replicate (n * f) 0)\<rparr>"
      by (auto simp: init_buf_def split: if_splits)
    from ch e' False have c: "0 < channels (info e)" "channels (info e) < 2 ^ 30"
      by simp_all
    from init_direction_endpoint [OF d e0] False
    have p: "precision (info e) = (if floating e then 32 else 16)"
      by simp
    have fv: "f = nat (channels (info e)) * (if floating e then 4 else 2)"
    proof -
      have "f = nat (channels (info e) * (if floating e then 4 else 2))"
        unfolding f using c p by (intro trans [OF to_uint32_small]) auto
      then show ?thesis using c(1) by (simp add: nat_mult_distrib)
    qed
    have "f < 2 ^ 32" unfolding f by (rule to_uint32_less)
    with nn have "n * f < 2 ^ 32 * 2 ^ 32"
      by (intro mult_strict_mono) simp_all
    then have "n * f < 2 ^ 64" by simp
    with c fv e' show ?thesis by (simp add: endpoint_ok_def)
  qed
  from cp cr have "fd e3 \<noteq> - 1 \<Longrightarrow> 0 < channels (info e3) \<and> channels (info e3) < 2 ^ 30"
    "fd e4 \<noteq> - 1 \<Longrightarrow> 0 < channels (info e4) \<and> channels (info e4) < 2 ^ 30"
    by (simp_all add: s)
  from ep [OF d2 z(3,4) fp b1 this(1)] ep [OF d1 z(1,2) fr b2 this(2)] nn z(5) show ?thesis
    by (simp add: stream_ok_def s)
qed

lemma oss_stream_init_good_env_stream_ok:
  "\<exists>s evs. oss_stream_init good_env None (Some s16_params) None (Some s16_params)
              = Inr (CUBEB_OK, Some s, evs) \<and> stream_ok s"
proof -
  obtain s evs where
    ok: "oss_stream_init good_env None (Some s16_params) None (Some s16_params)
           = Inr (CUBEB_OK, Some s, evs)"
    and c: "channels (info (play s)) = 2" "channels (info (rec_strm s)) = 2"
    by (simp add: init_eval init_buf_def)
  from oss_stream_init_stream_ok [OF ok] c ok show ?thesis by simp
qed

section \<open>Properties of the I/O routine\<close>

lemma to_uint64_sub: "m \<le> a \<Longrightarrow> a < 2 ^ 64 \<Longrightarrow> to_uint64 (int a - int m) = a - m"
proof -
  assume a: "m \<le> a" "a < 2 ^ 64"
  have "int a - int m = int (a - m)" using a by simp
  then have "(int a - int m) mod int (2 ^ 64) = int ((a - m) mod 2 ^ 64)"
    by (simp only: zmod_int)
  moreover have "(a - m) mod 2 ^ 64 = a - m" using a by simp
  ultimately show ?thesis by (simp add: to_uint64_def)
qed

lemma to_uint64_add: "a + k < 2 ^ 64 \<Longrightarrow> to_uint64 (int a + int k) = a + k"
proof -
  assume a: "a + k < 2 ^ 64"
  have "(int a + int k) mod int (2 ^ 64) = int ((a + k) mod 2 ^ 64)"
    by (simp only: zmod_int of_nat_add)
  then show ?thesis using a by (simp add: to_uint64_def)
qed

lemma to_uint64_add_mod: "to_uint64 (int a + int k) = (a + k) mod 2 ^ 64"
proof -
  have "(int a + int k) mod int (2 ^ 64) = int ((a + k) mod 2 ^ 64)"
    by (simp only: zmod_int of_nat_add)
  then show ?thesis by (simp add: to_uint64_def)
qed


lemma io_write_frames:
  assumes tw: "0 < to_write c"
    and n0: "0 \<le> dev_write env (n_wr c) (fd (play (strm c)))
                    (to_write c * frame_size (play (strm c)))"
    and n1: "dev_write env (n_wr c) (fd (play (strm c)))
                    (to_write c * frame_size (play (strm c)))
               \<le> int (to_write c * frame_size (play (strm c)))"
    and n2: "int (frame_size (play (strm c)))
               dvd dev_write env (n_wr c) (fd (play (strm c)))
                     (to_write c * frame_size (play (strm c)))"
    and fs: "0 < frame_size (play (strm c))"
    and pb: "buf (play (strm c)) = Some pb"
    and fit: "write_ofs c + to_write c * frame_size (play (strm c)) \<le> length pb"
    and len: "length pb < 2 ^ 64"
  shows "\<exists>m. dev_write env (n_wr c) (fd (play (strm c)))
                    (to_write c * frame_size (play (strm c)))
                 = int (m * frame_size (play (strm c)))
           \<and> m \<le> to_write c
           \<and> io_write env c =
               Inr (False,
                    c\<lparr>n_wr := Suc (n_wr c),
                      strm := (strm c)\<lparr>frames_written := (frames_written (strm c) + m) mod 2 ^ 64\<rparr>,
                      to_write := to_write c - m,
                      write_ofs := write_ofs c + m * frame_size (play (strm c)),
                      trace := trace c
                        @ [DevWrite (fd (play (strm c)))
                             (take (m * frame_size (play (strm c))) (drop (write_ofs c) pb))]\<rparr>)"
proof -
  let ?P = "frame_size (play (strm c))"
  let ?b = "to_write c * ?P"
  let ?n = "dev_write env (n_wr c) (fd (play (strm c))) ?b"
  have b64: "?b < 2 ^ 64" using fit len by linarith
  note n = n0 n1 n2
  define k where "k = nat ?n"
  have k1: "?n = int k" using n(1) by (simp add: k_def)
  from n(2) have "int k \<le> int ?b" unfolding k1 .
  then have k3: "k \<le> ?b" by (rule of_nat_le_iff [THEN iffD1])
  from n(3) have k4: "?P dvd k" unfolding k1 by simp
  define m where "m = k div ?P"
  have km: "k = m * ?P" using k4 by (simp add: m_def)
  have mtw: "m \<le> to_write c" using k3 km fs by simp
  have tw64: "to_write c < 2 ^ 64"
  proof -
    have "to_write c \<le> ?b" using fs by (cases ?P) simp_all
    with b64 show ?thesis by linarith
  qed
  have wo64: "write_ofs c + m * ?P < 2 ^ 64" using fit len k3 km by linarith
  have bytes: "?b mod 2 ^ 64 = ?b"
    using b64 by simp
  have nn: "dev_write env (n_wr c) (fd (play (strm c))) ?b = int m * int ?P"
    using k1 unfolding km by (simp only: of_nat_mult)
  have fr: "int m * int ?P div int ?P = int m"
    using fs by simp
  have neg: "\<not> int m * int ?P < 0"
    by (simp add: not_less)
  have tk: "nat (int m * int ?P) = m * ?P"
    by (simp add: nat_mult_distrib)
  have nfit: "\<not> length pb < write_ofs c + ?b"
    using fit by simp
  have nz: "?P \<noteq> 0" using fs by simp
  have e2: "to_uint64 (int (write_ofs c) + int m * int ?P) = write_ofs c + m * ?P"
    using to_uint64_add [OF wo64] by (simp only: of_nat_mult)
  have "io_write env c =
               Inr (False,
                    c\<lparr>n_wr := Suc (n_wr c),
                      strm := (strm c)\<lparr>frames_written := (frames_written (strm c) + m) mod 2 ^ 64\<rparr>,
                      to_write := to_write c - m,
                      write_ofs := write_ofs c + m * ?P,
                      trace := trace c
                        @ [DevWrite (fd (play (strm c))) (take (m * ?P) (drop (write_ofs c) pb))]\<rparr>)"
    unfolding io_write_def Let_def pb bytes nn
    by (simp only: option.case nfit if_False neg nz fr tk to_uint64_add_mod)
       (simp add: e2 to_uint64_sub [OF mtw tw64])
  moreover have "?n = int (m * ?P)" using k1 km by simp
  ultimately show ?thesis using mtw by blast
qed

lemma io_write_step:
  assumes tw: "0 < to_write c"
    and ok: "writes_ok env (frame_size (play (strm c)))"
    and fs: "0 < frame_size (play (strm c))"
    and pb: "buf (play (strm c)) = Some pb"
    and fit: "write_ofs c + to_write c * frame_size (play (strm c)) \<le> length pb"
    and len: "length pb < 2 ^ 64"
  shows "\<exists>m. 0 < m \<and> m \<le> to_write c
           \<and> io_write env c =
               Inr (False,
                    c\<lparr>n_wr := Suc (n_wr c),
                      strm := (strm c)\<lparr>frames_written := (frames_written (strm c) + m) mod 2 ^ 64\<rparr>,
                      to_write := to_write c - m,
                      write_ofs := write_ofs c + m * frame_size (play (strm c)),
                      trace := trace c
                        @ [DevWrite (fd (play (strm c)))
                             (take (m * frame_size (play (strm c))) (drop (write_ofs c) pb))]\<rparr>)"
proof -
  let ?P = "frame_size (play (strm c))"
  let ?b = "to_write c * ?P"
  let ?n = "dev_write env (n_wr c) (fd (play (strm c))) ?b"
  have bpos: "0 < ?b" using tw fs by simp
  from ok have "0 < ?b \<and> ?P dvd ?b \<longrightarrow> 0 < ?n \<and> ?n \<le> int ?b \<and> int ?P dvd ?n"
    unfolding writes_ok_def by blast
  with bpos have n: "0 < ?n" "?n \<le> int ?b" "int ?P dvd ?n"
    by simp_all
  from n(1) have n0: "0 \<le> ?n" by simp
  from io_write_frames [OF tw n0 n(2,3) fs pb fit len] obtain m where
    m: "?n = int (m * ?P)" "m \<le> to_write c"
    and w: "io_write env c =
               Inr (False,
                    c\<lparr>n_wr := Suc (n_wr c),
                      strm := (strm c)\<lparr>frames_written := (frames_written (strm c) + m) mod 2 ^ 64\<rparr>,
                      to_write := to_write c - m,
                      write_ofs := write_ofs c + m * ?P,
                      trace := trace c
                        @ [DevWrite (fd (play (strm c))) (take (m * ?P) (drop (write_ofs c) pb))]\<rparr>)"
    by blast
  from n(1) m(1) have "0 < m" by (cases m) simp_all
  with m(2) w show ?thesis by blast
qed

lemma length_overlay: "length (overlay b ofs d) = length b"
  by (simp add: overlay_def)

lemma io_read_frames:
  assumes tr: "0 < to_read c"
    and d: "dev_read env (n_rd c) (fd (rec_strm (strm c)))
              (to_read c * frame_size (rec_strm (strm c))) = Some d"
    and d3: "length d \<le> to_read c * frame_size (rec_strm (strm c))"
    and d4: "frame_size (rec_strm (strm c)) dvd length d"
    and fs: "0 < frame_size (rec_strm (strm c))"
    and rb: "buf (rec_strm (strm c)) = Some rb"
    and fit: "read_ofs c + to_read c * frame_size (rec_strm (strm c)) \<le> length rb"
    and len: "length rb < 2 ^ 64"
  shows "\<exists>m. m \<le> to_read c \<and> length d = m * frame_size (rec_strm (strm c))
           \<and> io_read env c =
               Inr (False,
                    c\<lparr>n_rd := Suc (n_rd c),
                      strm := (strm c)\<lparr>rec_strm :=
                                (rec_strm (strm c))\<lparr>buf := Some (overlay rb (read_ofs c) d)\<rparr>\<rparr>,
                      to_read := to_read c - m,
                      read_ofs := read_ofs c + m * frame_size (rec_strm (strm c)),
                      trace := trace c @ [DevRead (fd (rec_strm (strm c))) d]\<rparr>)"
proof -
  let ?R = "frame_size (rec_strm (strm c))"
  let ?b = "to_read c * ?R"
  have b64: "?b < 2 ^ 64" using fit len by linarith
  define m where "m = length d div ?R"
  have km: "length d = m * ?R" using d4 by (simp add: m_def)
  have mtr: "m \<le> to_read c" using d3 km fs by simp
  have tr64: "to_read c < 2 ^ 64"
  proof -
    have "to_read c \<le> ?b" using fs by (cases ?R) simp_all
    with b64 show ?thesis by linarith
  qed
  have ro64: "read_ofs c + m * ?R < 2 ^ 64" using fit len d3 km by linarith
  have bytes: "?b mod 2 ^ 64 = ?b"
    using b64 by simp
  have fr: "int m * int ?R div int ?R = int m"
    using fs by simp
  have nfit: "\<not> length rb < read_ofs c + m * ?R"
    using fit d3 km by linarith
  have nz: "?R \<noteq> 0" using fs by simp
  have e2: "to_uint64 (int (read_ofs c) + int m * int ?R) = read_ofs c + m * ?R"
    using to_uint64_add [OF ro64] by (simp only: of_nat_mult)
  have "io_read env c =
               Inr (False,
                    c\<lparr>n_rd := Suc (n_rd c),
                      strm := (strm c)\<lparr>rec_strm :=
                                (rec_strm (strm c))\<lparr>buf := Some (overlay rb (read_ofs c) d)\<rparr>\<rparr>,
                      to_read := to_read c - m,
                      read_ofs := read_ofs c + m * ?R,
                      trace := trace c @ [DevRead (fd (rec_strm (strm c))) d]\<rparr>)"
    unfolding io_read_def Let_def rb bytes
    by (simp add: d km nfit nz fr e2 to_uint64_sub [OF mtr tr64])
  with mtr km show ?thesis by blast
qed

lemma io_read_step:
  assumes tr: "0 < to_read c"
    and ok: "reads_ok env (frame_size (rec_strm (strm c)))"
    and fs: "0 < frame_size (rec_strm (strm c))"
    and rb: "buf (rec_strm (strm c)) = Some rb"
    and fit: "read_ofs c + to_read c * frame_size (rec_strm (strm c)) \<le> length rb"
    and len: "length rb < 2 ^ 64"
  shows "\<exists>m d. 0 < m \<and> m \<le> to_read c \<and> length d = m * frame_size (rec_strm (strm c))
           \<and> io_read env c =
               Inr (False,
                    c\<lparr>n_rd := Suc (n_rd c),
                      strm := (strm c)\<lparr>rec_strm :=
                                (rec_strm (strm c))\<lparr>buf := Some (overlay rb (read_ofs c) d)\<rparr>\<rparr>,
                      to_read := to_read c - m,
                      read_ofs := read_ofs c + m * frame_size (rec_strm (strm c)),
                      trace := trace c @ [DevRead (fd (rec_strm (strm c))) d]\<rparr>)"
proof -
  let ?R = "frame_size (rec_strm (strm c))"
  let ?b = "to_read c * ?R"
  have bpos: "0 < ?b" using tr fs by simp
  from ok have "0 < ?b \<and> ?R dvd ?b \<longrightarrow>
      (case dev_read env (n_rd c) (fd (rec_strm (strm c))) ?b of
         None \<Rightarrow> False
       | Some x \<Rightarrow> 0 < length x \<and> length x \<le> ?b \<and> ?R dvd length x)"
    unfolding reads_ok_def by blast
  with bpos obtain d where
    d: "dev_read env (n_rd c) (fd (rec_strm (strm c))) ?b = Some d"
    and d2: "0 < length d" and d3: "length d \<le> ?b" and d4: "?R dvd length d"
    by (auto split: option.splits)
  from io_read_frames [OF tr d d3 d4 fs rb fit len] obtain m where
    m: "m \<le> to_read c" "length d = m * ?R"
    and w: "io_read env c =
               Inr (False,
                    c\<lparr>n_rd := Suc (n_rd c),
                      strm := (strm c)\<lparr>rec_strm :=
                                (rec_strm (strm c))\<lparr>buf := Some (overlay rb (read_ofs c) d)\<rparr>\<rparr>,
                      to_read := to_read c - m,
                      read_ofs := read_ofs c + m * ?R,
                      trace := trace c @ [DevRead (fd (rec_strm (strm c))) d]\<rparr>)"
    by blast
  from d2 m(2) have "0 < m" by (cases m) simp_all
  with m w show ?thesis by blast
qed

lemma written_append: "written (xs @ ys) = written xs @ written ys"
  by (induction xs rule: written.induct) simp_all

lemma was_read_append: "was_read (xs @ ys) = was_read xs @ was_read ys"
  by (induction xs rule: was_read.induct) simp_all

lemma state_cbs_append: "state_cbs (xs @ ys) = state_cbs xs @ state_cbs ys"
  by (induction xs rule: state_cbs.induct) simp_all

lemma data_cb_inputs_append: "data_cb_inputs (xs @ ys) = data_cb_inputs xs @ data_cb_inputs ys"
  by (induction xs rule: data_cb_inputs.induct) simp_all


lemma device_calls_no_data_cb: "list_all is_device_call evs \<Longrightarrow> data_cb_inputs evs = []"
  by (induction evs rule: data_cb_inputs.induct) simp_all

lemma xfer_steps_refl: "frames_written (strm c) < 2 ^ 64 \<Longrightarrow> xfer_steps 0 0 c c"
  unfolding xfer_steps_def
  apply (rule exI [of _ "buf (rec_strm (strm c))"])
  apply (rule exI [of _ "[]"])
  apply (rule exI [of _ "n_wr c"])
  apply (rule exI [of _ "n_rd c"])
  apply (simp split: option.splits)
  done

lemma take_drop_next:
  "take a (drop ofs xs) @ take b (drop (ofs + a) xs) = take (a + b) (drop ofs xs)"
  by (simp add: take_add add.commute)

lemma xfer_steps_trans:
  assumes 1: "xfer_steps a b c c1" and 2: "xfer_steps a' b' c1 c2"
  shows "xfer_steps (a + a') (b + b') c c2"
proof -
  let ?P = "frame_size (play (strm c))" and ?R = "frame_size (rec_strm (strm c))"
  from 1 obtain rb1 evs1 nw1 nr1 where
    c1: "c1 = c\<lparr>strm := (strm c)\<lparr>frames_written := (frames_written (strm c) + a) mod 2 ^ 64,
                                rec_strm := (rec_strm (strm c))\<lparr>buf := rb1\<rparr>\<rparr>,
               to_write := to_write c - a, to_read := to_read c - b,
               write_ofs := write_ofs c + a * ?P,
               read_ofs := read_ofs c + b * ?R,
               trace := trace c @ evs1, n_wr := nw1, n_rd := nr1\<rparr>"
    and le1: "a \<le> to_write c" "b \<le> to_read c"
    and len1: "map_option length rb1 = map_option length (buf (rec_strm (strm c)))"
    and dev1: "list_all is_device_call evs1"
    and w1: "written evs1 =
              (case buf (play (strm c)) of
                 None \<Rightarrow> []
               | Some pb \<Rightarrow> take (a * ?P) (drop (write_ofs c) pb))"
    and r1: "length (was_read evs1) = b * ?R"
    unfolding xfer_steps_def by blast
  have sel: "frame_size (play (strm c1)) = ?P" "frame_size (rec_strm (strm c1)) = ?R"
    "buf (play (strm c1)) = buf (play (strm c))" "buf (rec_strm (strm c1)) = rb1"
    "frames_written (strm c1) = (frames_written (strm c) + a) mod 2 ^ 64"
    "to_write c1 = to_write c - a" "to_read c1 = to_read c - b"
    "write_ofs c1 = write_ofs c + a * ?P" "read_ofs c1 = read_ofs c + b * ?R"
    "trace c1 = trace c @ evs1"
    by (simp_all add: c1)
  from 2 obtain rb2 evs2 nw2 nr2 where
    c2: "c2 = c1\<lparr>strm := (strm c1)\<lparr>frames_written := (frames_written (strm c1) + a') mod 2 ^ 64,
                                rec_strm := (rec_strm (strm c1))\<lparr>buf := rb2\<rparr>\<rparr>,
               to_write := to_write c1 - a', to_read := to_read c1 - b',
               write_ofs := write_ofs c1 + a' * frame_size (play (strm c1)),
               read_ofs := read_ofs c1 + b' * frame_size (rec_strm (strm c1)),
               trace := trace c1 @ evs2, n_wr := nw2, n_rd := nr2\<rparr>"
    and le2: "a' \<le> to_write c1" "b' \<le> to_read c1"
    and len2': "map_option length rb2 = map_option length (buf (rec_strm (strm c1)))"
    and dev2: "list_all is_device_call evs2"
    and w2': "written evs2 =
              (case buf (play (strm c1)) of
                 None \<Rightarrow> []
               | Some pb \<Rightarrow> take (a' * frame_size (play (strm c1))) (drop (write_ofs c1) pb))"
    and r2': "length (was_read evs2) = b' * frame_size (rec_strm (strm c1))"
    unfolding xfer_steps_def by blast
  have len2: "map_option length rb2 = map_option length rb1"
    using len2' by (simp only: sel)
  have w2: "written evs2 =
              (case buf (play (strm c)) of
                 None \<Rightarrow> []
               | Some pb \<Rightarrow> take (a' * ?P) (drop (write_ofs c + a * ?P) pb))"
    using w2' by (simp only: sel)
  have r2: "length (was_read evs2) = b' * ?R"
    using r2' by (simp only: sel)
  have fw: "((frames_written (strm c) + a) mod 2 ^ 64 + a') mod 2 ^ 64
              = (frames_written (strm c) + (a + a')) mod 2 ^ 64"
    by (simp add: mod_add_left_eq add.assoc)
  have eq: "c2 = c\<lparr>strm := (strm c)\<lparr>frames_written :=
                                  (frames_written (strm c) + (a + a')) mod 2 ^ 64,
                                rec_strm := (rec_strm (strm c))\<lparr>buf := rb2\<rparr>\<rparr>,
               to_write := to_write c - (a + a'), to_read := to_read c - (b + b'),
               write_ofs := write_ofs c + (a + a') * ?P,
               read_ofs := read_ofs c + (b + b') * ?R,
               trace := trace c @ (evs1 @ evs2), n_wr := nw2, n_rd := nr2\<rparr>"
    unfolding c2 sel fw by (simp add: c1 algebra_simps)
  have le: "a + a' \<le> to_write c" "b + b' \<le> to_read c"
    using le1 le2 by (simp_all add: sel)
  have w: "written (evs1 @ evs2) =
              (case buf (play (strm c)) of
                 None \<Rightarrow> []
               | Some pb \<Rightarrow> take ((a + a') * ?P) (drop (write_ofs c) pb))"
    by (simp add: written_append w1 w2 take_drop_next algebra_simps split: option.splits)
  have r: "length (was_read (evs1 @ evs2)) = (b + b') * ?R"
    by (simp add: was_read_append r1 r2 algebra_simps)
  show ?thesis
    unfolding xfer_steps_def
    apply (rule exI [of _ rb2])
    apply (rule exI [of _ "evs1 @ evs2"])
    apply (rule exI [of _ nw2])
    apply (rule exI [of _ nr2])
    using eq le len1 len2 dev1 dev2 w r
    apply simp
    done
qed

lemma io_write_steps:
  assumes tw: "0 < to_write c" and rdy: "xfer_ready env c"
  shows "\<exists>m c1. 0 < m \<and> io_write env c = Inr (False, c1) \<and> xfer_steps m 0 c c1"
proof -
  let ?P = "frame_size (play (strm c))"
  from rdy tw obtain pb where
    ok: "writes_ok env ?P" and fs: "0 < ?P" and pb: "buf (play (strm c)) = Some pb"
    and len: "length pb < 2 ^ 64" and fit: "write_ofs c + to_write c * ?P \<le> length pb"
    and fw: "frames_written (strm c) < 2 ^ 64"
    unfolding xfer_ready_def by blast
  from io_write_step [OF tw ok fs pb fit len] obtain m where
    m: "0 < m" "m \<le> to_write c"
    and w: "io_write env c =
               Inr (False,
                    c\<lparr>n_wr := Suc (n_wr c),
                      strm := (strm c)\<lparr>frames_written := (frames_written (strm c) + m) mod 2 ^ 64\<rparr>,
                      to_write := to_write c - m,
                      write_ofs := write_ofs c + m * ?P,
                      trace := trace c
                        @ [DevWrite (fd (play (strm c))) (take (m * ?P) (drop (write_ofs c) pb))]\<rparr>)"
    by blast
  let ?c1 = "c\<lparr>n_wr := Suc (n_wr c),
                      strm := (strm c)\<lparr>frames_written := (frames_written (strm c) + m) mod 2 ^ 64\<rparr>,
                      to_write := to_write c - m,
                      write_ofs := write_ofs c + m * ?P,
                      trace := trace c
                        @ [DevWrite (fd (play (strm c))) (take (m * ?P) (drop (write_ofs c) pb))]\<rparr>"
  have "xfer_steps m 0 c ?c1"
    unfolding xfer_steps_def
    apply (rule exI [of _ "buf (rec_strm (strm c))"])
    apply (rule exI [of _ "[DevWrite (fd (play (strm c))) (take (m * ?P) (drop (write_ofs c) pb))]"])
    apply (rule exI [of _ "Suc (n_wr c)"])
    apply (rule exI [of _ "n_rd c"])
    using m pb apply simp
    done
  with m(1) w show ?thesis by blast
qed

lemma io_read_steps:
  assumes tr: "0 < to_read c" and rdy: "xfer_ready env c"
  shows "\<exists>m c1. 0 < m \<and> io_read env c = Inr (False, c1) \<and> xfer_steps 0 m c c1"
proof -
  let ?R = "frame_size (rec_strm (strm c))"
  from rdy tr obtain rb where
    ok: "reads_ok env ?R" and fs: "0 < ?R" and rb: "buf (rec_strm (strm c)) = Some rb"
    and len: "length rb < 2 ^ 64" and fit: "read_ofs c + to_read c * ?R \<le> length rb"
    and fw: "frames_written (strm c) < 2 ^ 64"
    unfolding xfer_ready_def by blast
  from io_read_step [OF tr ok fs rb fit len] obtain m d where
    m: "0 < m" "m \<le> to_read c" "length d = m * ?R"
    and w: "io_read env c =
               Inr (False,
                    c\<lparr>n_rd := Suc (n_rd c),
                      strm := (strm c)\<lparr>rec_strm :=
                                (rec_strm (strm c))\<lparr>buf := Some (overlay rb (read_ofs c) d)\<rparr>\<rparr>,
                      to_read := to_read c - m,
                      read_ofs := read_ofs c + m * ?R,
                      trace := trace c @ [DevRead (fd (rec_strm (strm c))) d]\<rparr>)"
    by blast
  let ?c1 = "c\<lparr>n_rd := Suc (n_rd c),
                      strm := (strm c)\<lparr>rec_strm :=
                                (rec_strm (strm c))\<lparr>buf := Some (overlay rb (read_ofs c) d)\<rparr>\<rparr>,
                      to_read := to_read c - m,
                      read_ofs := read_ofs c + m * ?R,
                      trace := trace c @ [DevRead (fd (rec_strm (strm c))) d]\<rparr>"
  have "xfer_steps 0 m c ?c1"
    unfolding xfer_steps_def
    apply (rule exI [of _ "Some (overlay rb (read_ofs c) d)"])
    apply (rule exI [of _ "[DevRead (fd (rec_strm (strm c))) d]"])
    apply (rule exI [of _ "n_wr c"])
    apply (rule exI [of _ "Suc (n_rd c)"])
    using m rb fw apply (simp add: length_overlay split: option.splits)
    done
  with m(1) w show ?thesis by blast
qed

lemma xfer_steps_ready:
  assumes rdy: "xfer_ready env c" and st: "xfer_steps a b c c'"
  shows "xfer_ready env c'"
proof -
  let ?P = "frame_size (play (strm c))" and ?R = "frame_size (rec_strm (strm c))"
  from st obtain rb1 evs1 nw1 nr1 where
    c1: "c' = c\<lparr>strm := (strm c)\<lparr>frames_written := (frames_written (strm c) + a) mod 2 ^ 64,
                                rec_strm := (rec_strm (strm c))\<lparr>buf := rb1\<rparr>\<rparr>,
               to_write := to_write c - a, to_read := to_read c - b,
               write_ofs := write_ofs c + a * ?P,
               read_ofs := read_ofs c + b * ?R,
               trace := trace c @ evs1, n_wr := nw1, n_rd := nr1\<rparr>"
    and le1: "a \<le> to_write c" "b \<le> to_read c"
    and len1: "map_option length rb1 = map_option length (buf (rec_strm (strm c)))"
    unfolding xfer_steps_def by blast
  have sel: "frame_size (play (strm c')) = ?P" "frame_size (rec_strm (strm c')) = ?R"
    "buf (play (strm c')) = buf (play (strm c))" "buf (rec_strm (strm c')) = rb1"
    "frames_written (strm c') = (frames_written (strm c) + a) mod 2 ^ 64"
    "to_write c' = to_write c - a" "to_read c' = to_read c - b"
    "write_ofs c' = write_ofs c + a * ?P" "read_ofs c' = read_ofs c + b * ?R"
    by (simp_all add: c1)
  have w: "writes_ok env ?P \<and> 0 < ?P
          \<and> (\<exists>pb. buf (play (strm c)) = Some pb \<and> length pb < 2 ^ 64
                \<and> write_ofs c + a * ?P + (to_write c - a) * ?P \<le> length pb)"
    if "0 < to_write c - a"
  proof -
    from that have "0 < to_write c" by simp
    with rdy obtain pb where
      "writes_ok env ?P" "0 < ?P" "buf (play (strm c)) = Some pb" "length pb < 2 ^ 64"
      "write_ofs c + to_write c * ?P \<le> length pb"
      unfolding xfer_ready_def by blast
    moreover have "a * ?P + (to_write c - a) * ?P = to_write c * ?P"
      using le1(1) by (simp add: add_mult_distrib [symmetric])
    ultimately show ?thesis by simp
  qed
  have r: "reads_ok env ?R \<and> 0 < ?R
          \<and> (\<exists>rb. rb1 = Some rb \<and> length rb < 2 ^ 64
                \<and> read_ofs c + b * ?R + (to_read c - b) * ?R \<le> length rb)"
    if "0 < to_read c - b"
  proof -
    from that have "0 < to_read c" by simp
    with rdy obtain rb where
      rb: "reads_ok env ?R" "0 < ?R" "buf (rec_strm (strm c)) = Some rb" "length rb < 2 ^ 64"
      "read_ofs c + to_read c * ?R \<le> length rb"
      unfolding xfer_ready_def by blast
    from len1 rb(3) obtain rb' where rb': "rb1 = Some rb'" "length rb' = length rb"
      by (cases rb1) simp_all
    moreover have "b * ?R + (to_read c - b) * ?R = to_read c * ?R"
      using le1(2) by (simp add: add_mult_distrib [symmetric])
    ultimately show ?thesis using rb by simp
  qed
  show ?thesis
    unfolding xfer_ready_def sel using w r by simp
qed

lemma xfer_steps_fields:
  assumes "xfer_steps a b c c'"
  shows "to_write c' = to_write c - a" and "to_read c' = to_read c - b"
    and "a \<le> to_write c" and "b \<le> to_read c"
    and "state c' = state c" and "drain c' = drain c" and "cb_nfr c' = cb_nfr c"
    and "n_cb c' = n_cb c"
    and "write_ofs c' = write_ofs c + a * frame_size (play (strm c))"
    and "read_ofs c' = read_ofs c + b * frame_size (rec_strm (strm c))"
    and "play (strm c') = play (strm c)"
    and "frames_written (strm c') = (frames_written (strm c) + a) mod 2 ^ 64"
    and "running (strm c') = running (strm c)" and "volume (strm c') = volume (strm c)"
    and "nfr (strm c') = nfr (strm c)" and "thread (strm c') = thread (strm c)"
    and "fd (rec_strm (strm c')) = fd (rec_strm (strm c))"
    and "frame_size (rec_strm (strm c')) = frame_size (rec_strm (strm c))"
    and "info (rec_strm (strm c')) = info (rec_strm (strm c))"
    and "floating (rec_strm (strm c')) = floating (rec_strm (strm c))"
    and "map_option length (buf (rec_strm (strm c')))
           = map_option length (buf (rec_strm (strm c)))"
  using assms unfolding xfer_steps_def by auto

lemma oss_io_xfer_total:
  assumes "xfer_ready env c"
  shows "\<exists>c'. oss_io_xfer env c = Some (Inr c') \<and> xfer_steps (to_write c) (to_read c) c c'"
  using assms
proof (induction "to_write c + to_read c" arbitrary: c rule: less_induct)
  case less
  note rdy = \<open>xfer_ready env c\<close>
  show ?case
  proof (cases "0 < to_write c \<or> 0 < to_read c")
    case False
    then have "oss_io_xfer env c = Some (Inr c)"
      by (subst oss_io_xfer.simps) simp
    moreover from rdy have "xfer_steps 0 0 c c"
      by (intro xfer_steps_refl) (simp add: xfer_ready_def)
    ultimately show ?thesis using False by simp
  next
    case True
    obtain a c1 where
      w: "(if 0 < to_write c then io_write env c else Inr (False, c)) = Inr (False, c1)"
      and s1: "xfer_steps a 0 c c1" and a: "0 < to_write c \<longrightarrow> 0 < a"
    proof (cases "0 < to_write c")
      case True
      from io_write_steps [OF True rdy] that True show ?thesis by auto
    next
      case False
      moreover from rdy have "xfer_steps 0 0 c c"
        by (intro xfer_steps_refl) (simp add: xfer_ready_def)
      ultimately show ?thesis using that by auto
    qed
    have rdy1: "xfer_ready env c1"
      by (rule xfer_steps_ready [OF rdy s1])
    obtain b c2 where
      r: "(if 0 < to_read c1 then io_read env c1 else Inr (False, c1)) = Inr (False, c2)"
      and s2: "xfer_steps 0 b c1 c2" and b: "0 < to_read c1 \<longrightarrow> 0 < b"
    proof (cases "0 < to_read c1")
      case True
      from io_read_steps [OF True rdy1] that True show ?thesis by auto
    next
      case False
      moreover from rdy1 have "xfer_steps 0 0 c1 c1"
        by (intro xfer_steps_refl) (simp add: xfer_ready_def)
      ultimately show ?thesis using that by auto
    qed
    have rdy2: "xfer_ready env c2"
      by (rule xfer_steps_ready [OF rdy1 s2])
    from xfer_steps_trans [OF s1 s2] have s12: "xfer_steps a b c c2"
      by simp
    note f1 = xfer_steps_fields [OF s1] and f12 = xfer_steps_fields [OF s12]
    have less': "to_write c2 + to_read c2 < to_write c + to_read c"
      using True a b f1(1,2) f12(1-4) by auto
    from less.hyps [OF less' rdy2] obtain c' where
      run2: "oss_io_xfer env c2 = Some (Inr c')"
      and s3: "xfer_steps (to_write c2) (to_read c2) c2 c'"
      by blast
    have run: "oss_io_xfer env c = oss_io_xfer env c2"
      by (subst oss_io_xfer.simps) (simp add: True w r)
    have "a + to_write c2 = to_write c" "b + to_read c2 = to_read c"
      using f12(1-4) by simp_all
    with xfer_steps_trans [OF s12 s3] have "xfer_steps (to_write c) (to_read c) c c'"
      by simp
    with run run2 show ?thesis by simp
  qed
qed

lemma linear32_to_float_loop_length:
  "length (linear32_to_float_loop fp tail i b) = length b"
proof (induction fp tail i b rule: linear32_to_float_loop.induct)
  case (1 fp tail i b)
  then show ?case
    by (subst linear32_to_float_loop.simps) simp
qed

lemma linear16_set_vol_loop_length:
  "length (linear16_set_vol_loop multiplier sample_count i b) = length b"
proof (induction multiplier sample_count i b rule: linear16_set_vol_loop.induct)
  case (1 multiplier sample_count i b)
  then show ?case
    by (subst linear16_set_vol_loop.simps) simp
qed

lemma length_cells32: "length (cells32 b) = length b div 4"
  by (induction b rule: cells32.induct) simp_all

lemma length_cells16: "length (cells16 b) = length b div 2"
  by (induction b rule: cells16.induct) simp_all

lemma length_concat_bytes32: "length (concat (map bytes32 cs)) = 4 * length cs"
  by (induction cs) (simp_all add: bytes32_def)

lemma length_concat_bytes16: "length (concat (map bytes16 cs)) = 2 * length cs"
  by (induction cs) (simp_all add: bytes16_def)

lemma on_cells32_length:
  assumes "f (cells32 b) = Inr cs" and "length cs = length (cells32 b)"
  shows "\<exists>b'. on_cells32 f b = Inr b' \<and> length b' = length b"
  using assms by (simp add: on_cells32_def length_concat_bytes32 length_cells32)

lemma on_cells16_length:
  assumes "f (cells16 b) = Inr cs" and "length cs = length (cells16 b)"
  shows "\<exists>b'. on_cells16 f b = Inr b' \<and> length b' = length b"
  using assms by (simp add: on_cells16_def length_concat_bytes16 length_cells16)

lemma to_uint32_le: "0 \<le> x \<Longrightarrow> to_uint32 x \<le> nat x"
proof -
  assume "0 \<le> x"
  then have "x mod 2 ^ 32 \<le> x" by (rule zmod_le_nonneg_dividend)
  then show ?thesis by (simp add: to_uint32_def)
qed

lemma io_convert_record_ok:
  assumes ok: "endpoint_ok (nfr s) (rec_strm s)"
  shows "\<exists>rb'. io_convert_record fp s = Inr (s\<lparr>rec_strm := (rec_strm s)\<lparr>buf := rb'\<rparr>\<rparr>)
           \<and> map_option length rb' = map_option length (buf (rec_strm s))"
proof (cases "fd (rec_strm s) \<noteq> - 1 \<and> floating (rec_strm s)")
  case False
  then have "io_convert_record fp s = Inr (s\<lparr>rec_strm := (rec_strm s)\<lparr>buf := buf (rec_strm s)\<rparr>\<rparr>)"
    by (auto simp: io_convert_record_def)
  then show ?thesis by blast
next
  case True
  let ?ch = "channels (info (rec_strm s))"
  from ok True obtain b where
    ch: "0 < ?ch" and b: "buf (rec_strm s) = Some b"
    and len: "length b = nfr s * (nat ?ch * 4)"
    unfolding endpoint_ok_def by auto
  let ?n = "to_uint32 (?ch * int (nfr s))"
  have "?n \<le> nat (?ch * int (nfr s))"
    using ch by (intro to_uint32_le) simp
  also have "\<dots> = nat ?ch * nfr s"
    using ch by (simp add: nat_mult_distrib)
  finally have n: "?n \<le> length (cells32 b)"
    by (simp add: length_cells32 len mult.commute)
  then have "oss_linear32_to_float fp (cells32 b) ?n
               = Inr (linear32_to_float_loop fp ?n 0 (cells32 b))"
    by (simp add: oss_linear32_to_float_def)
  from on_cells32_length [of "\<lambda>cs. oss_linear32_to_float fp cs ?n", OF this]
  obtain b' where "on_cells32 (\<lambda>cs. oss_linear32_to_float fp cs ?n) b = Inr b'"
    and "length b' = length b"
    by (auto simp: linear32_to_float_loop_length)
  with True b have "io_convert_record fp s = Inr (s\<lparr>rec_strm := (rec_strm s)\<lparr>buf := Some b'\<rparr>\<rparr>)
      \<and> map_option length (Some b') = map_option length (buf (rec_strm s))"
    by (simp add: io_convert_record_def)
  then show ?thesis by blast
qed



lemma xfer_steps_trace:
  assumes "xfer_steps a b c c'"
  shows "\<exists>evs. trace c' = trace c @ evs \<and> list_all is_device_call evs
           \<and> written evs =
                 (case buf (play (strm c)) of
                    None \<Rightarrow> []
                  | Some pb \<Rightarrow> take (a * frame_size (play (strm c))) (drop (write_ofs c) pb))
           \<and> length (was_read evs) = b * frame_size (rec_strm (strm c))"
  using assms unfolding xfer_steps_def by auto

lemma oss_io_loop_stopped:
  "state c \<noteq> CUBEB_STATE_STARTED \<Longrightarrow> oss_io_loop fp env c = Some (Inr c)"
  by (subst oss_io_loop.simps) simp


lemma replicate_numeral: "replicate (numeral k) x = x # replicate (pred_numeral k) x"
  by (simp add: numeral_eq_Suc)

lemmas io_eval = replicate_numeral
  oss_io_routine_def io_start_def oss_io_run_def oss_io_loop.simps oss_io_iter_def
  oss_io_xfer.simps io_write_def io_read_def io_convert_play_def io_convert_record_def
  on_cells16_def on_cells32_def oss_linear16_set_vol_def linear16_set_vol_loop.simps
  linear16_set_vol_sample_def oss_float_to_linear32_def float_to_linear32_loop.simps
  float_to_linear32_sample_def oss_linear32_to_float_def linear32_to_float_loop.simps
  linear32_to_float_sample_def bytes16_def bytes32_def overlay_def to_uint32_def to_uint64_def
  play_only_stream_def s16_endpoint_def closed_endpoint_def
  running_play_stream_def running_duplex_stream_def running_record_stream_def
  one_frame_ctx_def short_cb_env_def read_error_env_def
  partial_write_env_def CUBEB_ERROR_def Let_def INT32_MAX_def

lemma writes_ok_short_cb_env: "writes_ok (short_cb_env k) 4"
  using int_dvd_int_iff [of 4] by (simp add: writes_ok_def short_cb_env_def)




lemma xfer_steps_fits:
  assumes fits: "xfer_fits c" and st: "xfer_steps a b c c'"
  shows "xfer_fits c'"
proof -
  let ?P = "frame_size (play (strm c))" and ?R = "frame_size (rec_strm (strm c))"
  note f = xfer_steps_fields [OF st]
  have w: "0 < ?P
          \<and> (\<exists>pb. buf (play (strm c)) = Some pb \<and> length pb < 2 ^ 64
                \<and> write_ofs c + a * ?P + (to_write c - a) * ?P \<le> length pb)"
    if "0 < to_write c - a"
  proof -
    from that have "0 < to_write c" by simp
    with fits obtain pb where
      "0 < ?P" "buf (play (strm c)) = Some pb" "length pb < 2 ^ 64"
      "write_ofs c + to_write c * ?P \<le> length pb"
      unfolding xfer_fits_def by blast
    moreover have "a * ?P + (to_write c - a) * ?P = to_write c * ?P"
      using f(3) by (simp add: add_mult_distrib [symmetric])
    ultimately show ?thesis by simp
  qed
  have r: "0 < ?R
          \<and> (\<exists>rb. buf (rec_strm (strm c')) = Some rb \<and> length rb < 2 ^ 64
                \<and> read_ofs c + b * ?R + (to_read c - b) * ?R \<le> length rb)"
    if "0 < to_read c - b"
  proof -
    from that have "0 < to_read c" by simp
    with fits obtain rb where
      rb: "0 < ?R" "buf (rec_strm (strm c)) = Some rb" "length rb < 2 ^ 64"
      "read_ofs c + to_read c * ?R \<le> length rb"
      unfolding xfer_fits_def by blast
    from f(21) rb(2) obtain rb' where rb': "buf (rec_strm (strm c')) = Some rb'"
      "length rb' = length rb"
      by (cases "buf (rec_strm (strm c'))") simp_all
    moreover have "b * ?R + (to_read c - b) * ?R = to_read c * ?R"
      using f(4) by (simp add: add_mult_distrib [symmetric])
    ultimately show ?thesis using rb by simp
  qed
  show ?thesis
    unfolding xfer_fits_def f(1,2,9,10,11,12,18) using w r by simp
qed

lemma io_write_whole:
  assumes tw: "0 < to_write c" and fits: "xfer_fits c"
    and whole: "whole_frames env (frame_size (play (strm c))) rsize"
  shows "(\<exists>c1. io_write env c = Inr (True, c1) \<and> state c1 = CUBEB_STATE_ERROR)
         \<or> (\<exists>m c1. io_write env c = Inr (False, c1) \<and> xfer_steps m 0 c c1)"
proof -
  let ?P = "frame_size (play (strm c))"
  let ?b = "to_write c * ?P"
  let ?n = "dev_write env (n_wr c) (fd (play (strm c))) ?b"
  from fits tw obtain pb where
    fs: "0 < ?P" and pb: "buf (play (strm c)) = Some pb"
    and len: "length pb < 2 ^ 64" and fit: "write_ofs c + ?b \<le> length pb"
    unfolding xfer_fits_def by blast
  show ?thesis
  proof (cases "?n < 0")
    case True
    have b64: "?b < 2 ^ 64" using fit len by linarith
    then have "io_write env c =
        Inr (True, c\<lparr>n_wr := n_wr c + 1, state := CUBEB_STATE_ERROR,
                       trace := trace c @ [DevWriteErr (fd (play (strm c)))]\<rparr>)"
      using True fit pb by (simp add: io_write_def Let_def)
    then show ?thesis by simp
  next
    case False
    then have n0: "0 \<le> ?n" by simp
    from whole have "?P dvd ?b \<and> 0 \<le> ?n \<longrightarrow> ?n \<le> int ?b \<and> int ?P dvd ?n"
      unfolding whole_frames_def by blast
    with n0 have n: "?n \<le> int ?b" "int ?P dvd ?n" by simp_all
    from io_write_frames [OF tw n0 n fs pb fit len] obtain m where
      m: "m \<le> to_write c"
      and w: "io_write env c =
               Inr (False,
                    c\<lparr>n_wr := Suc (n_wr c),
                      strm := (strm c)\<lparr>frames_written := (frames_written (strm c) + m) mod 2 ^ 64\<rparr>,
                      to_write := to_write c - m,
                      write_ofs := write_ofs c + m * ?P,
                      trace := trace c
                        @ [DevWrite (fd (play (strm c))) (take (m * ?P) (drop (write_ofs c) pb))]\<rparr>)"
      by blast
    let ?c1 = "c\<lparr>n_wr := Suc (n_wr c),
                      strm := (strm c)\<lparr>frames_written := (frames_written (strm c) + m) mod 2 ^ 64\<rparr>,
                      to_write := to_write c - m,
                      write_ofs := write_ofs c + m * ?P,
                      trace := trace c
                        @ [DevWrite (fd (play (strm c))) (take (m * ?P) (drop (write_ofs c) pb))]\<rparr>"
    have "xfer_steps m 0 c ?c1"
      unfolding xfer_steps_def
      apply (rule exI [of _ "buf (rec_strm (strm c))"])
      apply (rule exI [of _ "[DevWrite (fd (play (strm c))) (take (m * ?P) (drop (write_ofs c) pb))]"])
      apply (rule exI [of _ "Suc (n_wr c)"])
      apply (rule exI [of _ "n_rd c"])
      using m pb apply simp
      done
    with w show ?thesis by blast
  qed
qed

lemma io_read_whole:
  assumes tr: "0 < to_read c" and fits: "xfer_fits c"
    and whole: "whole_frames env psize (frame_size (rec_strm (strm c)))"
  shows "(\<exists>c1. io_read env c = Inr (True, c1) \<and> state c1 = CUBEB_STATE_ERROR)
         \<or> (\<exists>m c1. io_read env c = Inr (False, c1) \<and> xfer_steps 0 m c c1)"
proof -
  let ?R = "frame_size (rec_strm (strm c))"
  let ?b = "to_read c * ?R"
  from fits tr obtain rb where
    fs: "0 < ?R" and rb: "buf (rec_strm (strm c)) = Some rb"
    and len: "length rb < 2 ^ 64" and fit: "read_ofs c + ?b \<le> length rb"
    and fw: "frames_written (strm c) < 2 ^ 64"
    unfolding xfer_fits_def by blast
  have b64: "?b < 2 ^ 64" using fit len by linarith
  show ?thesis
  proof (cases "dev_read env (n_rd c) (fd (rec_strm (strm c))) ?b")
    case None
    then have "io_read env c =
        Inr (True, c\<lparr>n_rd := n_rd c + 1, state := CUBEB_STATE_ERROR,
                       trace := trace c @ [DevReadErr (fd (rec_strm (strm c)))]\<rparr>)"
      using b64 rb by (simp add: io_read_def Let_def)
    then show ?thesis by simp
  next
    case (Some d)
    from whole have "?R dvd ?b \<and> dev_read env (n_rd c) (fd (rec_strm (strm c))) ?b = Some d
        \<longrightarrow> length d \<le> ?b \<and> ?R dvd length d"
      unfolding whole_frames_def by blast
    with Some have d: "length d \<le> ?b" "?R dvd length d" by simp_all
    from io_read_frames [OF tr Some d fs rb fit len] obtain m where
      m: "m \<le> to_read c" "length d = m * ?R"
      and w: "io_read env c =
               Inr (False,
                    c\<lparr>n_rd := Suc (n_rd c),
                      strm := (strm c)\<lparr>rec_strm :=
                                (rec_strm (strm c))\<lparr>buf := Some (overlay rb (read_ofs c) d)\<rparr>\<rparr>,
                      to_read := to_read c - m,
                      read_ofs := read_ofs c + m * ?R,
                      trace := trace c @ [DevRead (fd (rec_strm (strm c))) d]\<rparr>)"
      by blast
    let ?c1 = "c\<lparr>n_rd := Suc (n_rd c),
                      strm := (strm c)\<lparr>rec_strm :=
                                (rec_strm (strm c))\<lparr>buf := Some (overlay rb (read_ofs c) d)\<rparr>\<rparr>,
                      to_read := to_read c - m,
                      read_ofs := read_ofs c + m * ?R,
                      trace := trace c @ [DevRead (fd (rec_strm (strm c))) d]\<rparr>"
    have "xfer_steps 0 m c ?c1"
      unfolding xfer_steps_def
      apply (rule exI [of _ "Some (overlay rb (read_ofs c) d)"])
      apply (rule exI [of _ "[DevRead (fd (rec_strm (strm c))) d]"])
      apply (rule exI [of _ "n_wr c"])
      apply (rule exI [of _ "Suc (n_rd c)"])
      using m rb fw apply (simp add: length_overlay split: option.splits)
      done
    with w show ?thesis by blast
  qed
qed

lemma oss_io_xfer_partial:
  assumes run: "oss_io_xfer env c = Some (Inr c')"
    and "xfer_fits c"
    and "whole_frames env (frame_size (play (strm c))) (frame_size (rec_strm (strm c)))"
    and "state c \<noteq> CUBEB_STATE_ERROR"
    and "state c' \<noteq> CUBEB_STATE_ERROR"
  shows "xfer_steps (to_write c) (to_read c) c c'"
proof -
  have "\<forall>c'. xfer_fits c
          \<longrightarrow> whole_frames env (frame_size (play (strm c))) (frame_size (rec_strm (strm c)))
          \<longrightarrow> state c \<noteq> CUBEB_STATE_ERROR \<longrightarrow> y = Inr c' \<longrightarrow> state c' \<noteq> CUBEB_STATE_ERROR
          \<longrightarrow> xfer_steps (to_write c) (to_read c) c c'"
    if "oss_io_xfer env c = Some y" for y
  proof (rule oss_io_xfer.raw_induct
      [where P = "\<lambda>env c y. \<forall>c'. xfer_fits c
          \<longrightarrow> whole_frames env (frame_size (play (strm c))) (frame_size (rec_strm (strm c)))
          \<longrightarrow> state c \<noteq> CUBEB_STATE_ERROR \<longrightarrow> y = Inr c' \<longrightarrow> state c' \<noteq> CUBEB_STATE_ERROR
          \<longrightarrow> xfer_steps (to_write c) (to_read c) c c'", OF _ that])
    fix xfer env c y
    assume IH: "\<And>c b y. xfer c b = Some y \<Longrightarrow>
          \<forall>c'. xfer_fits b
          \<longrightarrow> whole_frames c (frame_size (play (strm b))) (frame_size (rec_strm (strm b)))
          \<longrightarrow> state b \<noteq> CUBEB_STATE_ERROR \<longrightarrow> y = Inr c' \<longrightarrow> state c' \<noteq> CUBEB_STATE_ERROR
          \<longrightarrow> xfer_steps (to_write b) (to_read b) b c'"
      and body: "(if 0 < to_write c \<or> 0 < to_read c
          then case if 0 < to_write c then io_write env c else Inr (False, c) of
               Inl t \<Rightarrow> Some (Inl t)
             | Inr (brk, c) \<Rightarrow>
                 if brk then Some (Inr c)
                 else case if 0 < to_read c then io_read env c else Inr (False, c) of
                        Inl t \<Rightarrow> Some (Inl t)
                      | Inr (brk, c) \<Rightarrow> if brk then Some (Inr c) else xfer env c
          else Some (Inr c)) = Some y"
    show "\<forall>c'. xfer_fits c
          \<longrightarrow> whole_frames env (frame_size (play (strm c))) (frame_size (rec_strm (strm c)))
          \<longrightarrow> state c \<noteq> CUBEB_STATE_ERROR \<longrightarrow> y = Inr c' \<longrightarrow> state c' \<noteq> CUBEB_STATE_ERROR
          \<longrightarrow> xfer_steps (to_write c) (to_read c) c c'"
    proof (intro allI impI)
      fix c'
      assume fits: "xfer_fits c"
        and whole: "whole_frames env (frame_size (play (strm c))) (frame_size (rec_strm (strm c)))"
        and st0: "state c \<noteq> CUBEB_STATE_ERROR" and y: "y = Inr c'"
        and st': "state c' \<noteq> CUBEB_STATE_ERROR"
      note prems = st0 y st'
      show "xfer_steps (to_write c) (to_read c) c c'"
  proof (cases "0 < to_write c \<or> 0 < to_read c")
    case False
    with body prems have "c' = c" by simp
    moreover from fits have "xfer_steps 0 0 c c"
      by (intro xfer_steps_refl) (simp add: xfer_fits_def)
    ultimately show ?thesis using False by simp
  next
    case True
    obtain a c1 where
      w: "(if 0 < to_write c then io_write env c else Inr (False, c)) = Inr (False, c1)"
      and s1: "xfer_steps a 0 c c1"
    proof (cases "0 < to_write c")
      case tw: True
      from io_write_whole [OF tw fits whole] show ?thesis
      proof
        assume "\<exists>c1. io_write env c = Inr (True, c1) \<and> state c1 = CUBEB_STATE_ERROR"
        then obtain c1 where "io_write env c = Inr (True, c1)" "state c1 = CUBEB_STATE_ERROR"
          by blast
        with body True tw prems show ?thesis by simp
      next
        assume "\<exists>m c1. io_write env c = Inr (False, c1) \<and> xfer_steps m 0 c c1"
        with that tw show ?thesis by auto
      qed
    next
      case False
      moreover from fits have "xfer_steps 0 0 c c"
        by (intro xfer_steps_refl) (simp add: xfer_fits_def)
      ultimately show ?thesis using that by auto
    qed
    note f1 = xfer_steps_fields [OF s1]
    have fits1: "xfer_fits c1"
      by (rule xfer_steps_fits [OF fits s1])
    have whole1: "whole_frames env (frame_size (play (strm c1))) (frame_size (rec_strm (strm c1)))"
      using whole by (simp add: f1)
    obtain b c2 where
      r: "(if 0 < to_read c1 then io_read env c1 else Inr (False, c1)) = Inr (False, c2)"
      and s2: "xfer_steps 0 b c1 c2"
    proof (cases "0 < to_read c1")
      case tr: True
      from io_read_whole [OF tr fits1 whole1] show ?thesis
      proof
        assume "\<exists>c2. io_read env c1 = Inr (True, c2) \<and> state c2 = CUBEB_STATE_ERROR"
        then obtain c2 where "io_read env c1 = Inr (True, c2)" "state c2 = CUBEB_STATE_ERROR"
          by blast
        with body True w tr prems show ?thesis by simp
      next
        assume "\<exists>m c2. io_read env c1 = Inr (False, c2) \<and> xfer_steps 0 m c1 c2"
        with that tr show ?thesis by auto
      qed
    next
      case False
      moreover from fits1 have "xfer_steps 0 0 c1 c1"
        by (intro xfer_steps_refl) (simp add: xfer_fits_def)
      ultimately show ?thesis using that by auto
    qed
    from xfer_steps_trans [OF s1 s2] have s12: "xfer_steps a b c c2"
      by simp
    note f12 = xfer_steps_fields [OF s12]
    have fits2: "xfer_fits c2"
      by (rule xfer_steps_fits [OF fits s12])
    have whole2: "whole_frames env (frame_size (play (strm c2))) (frame_size (rec_strm (strm c2)))"
      using whole by (simp add: f12)
    have st2: "state c2 \<noteq> CUBEB_STATE_ERROR"
      using st0 by (simp add: f12)
    from body True w r have rec: "xfer env c2 = Some y"
      by simp
    from IH [OF rec] fits2 whole2 st2 y st'
    have s3: "xfer_steps (to_write c2) (to_read c2) c2 c'" by blast
    have "a + to_write c2 = to_write c" "b + to_read c2 = to_read c"
      using f12(1-4) by simp_all
    with xfer_steps_trans [OF s12 s3] show ?thesis
      by simp
  qed
    qed
  qed
  from this [OF run] assms(2-) show ?thesis
    by blast
qed

text \<open>
  C6. On a running record-only stream whose data callback returns \<open>k\<close> frames, \<open>k\<close> below
  the block size (and not the error sentinel), the pass sets \<open>STOPPED\<close> and leaves the loop
  at once: after the data callback the trace holds the state callback with \<open>STOPPED\<close> and
  nothing else, so no device call is made, and the frame counter stays.
\<close>

theorem oss_io_record_short:
  assumes ok: "stream_ok (strm c)" and run: "running (strm c)"
    and started: "state c = CUBEB_STATE_STARTED"
    and pl: "fd (play (strm c)) = - 1" and rc: "fd (rec_strm (strm c)) \<noteq> - 1"
    and cb: "\<forall>inb. fst (data_cb env (n_cb c) inb (nfr (strm c))) = k"
    and k: "k < int (nfr (strm c))" "k \<noteq> CUBEB_ERROR"
  shows "\<exists>c' rb.
           oss_io_run fp env c = Some (Inr c') \<and> state c' = CUBEB_STATE_STOPPED
           \<and> trace c' = trace c @ [DataCb rb (nfr (strm c)), StateCb CUBEB_STATE_STOPPED]
           \<and> n_wr c' = n_wr c \<and> n_rd c' = n_rd c
           \<and> frames_written (strm c') = frames_written (strm c)"
proof -
  let ?s = "strm c"
  from ok have okr: "endpoint_ok (nfr ?s) (rec_strm ?s)"
    unfolding stream_ok_def by simp
  from io_convert_record_ok [OF okr, of fp] obtain rb where
    cr: "io_convert_record fp ?s = Inr (?s\<lparr>rec_strm := (rec_strm ?s)\<lparr>buf := rb\<rparr>\<rparr>)"
    by blast
  obtain out where cbv: "data_cb env (n_cb c) rb (nfr ?s) = (k, out)"
    using cb by (cases "data_cb env (n_cb c) rb (nfr ?s)") (metis fst_conv)
  let ?c1 = "c\<lparr>cb_nfr := k, n_cb := n_cb c + 1,
                trace := trace c @ [DataCb rb (nfr ?s)],
                strm := ?s\<lparr>rec_strm := (rec_strm ?s)\<lparr>buf := rb\<rparr>,
                            play := (play ?s)\<lparr>buf :=
                              map_option (\<lambda>b. overlay b 0 out) (buf (play ?s))\<rparr>\<rparr>,
                state := CUBEB_STATE_STOPPED\<rparr>"
  have it: "oss_io_iter fp env c = Some (Inr ?c1)"
    using run pl rc k
    by (simp add: oss_io_iter_def Let_def cr cbv io_convert_play_def)
  have loop: "oss_io_loop fp env c = Some (Inr ?c1)"
    by (subst oss_io_loop.simps) (simp add: started it oss_io_loop_stopped)
  let ?c' = "?c1\<lparr>trace := trace ?c1 @ [StateCb (state ?c1)]\<rparr>"
  have runv: "oss_io_run fp env c = Some (Inr ?c')"
    by (simp add: oss_io_run_def loop)
  have "state ?c' = CUBEB_STATE_STOPPED"
    and "trace ?c' = trace c @ [DataCb rb (nfr ?s), StateCb CUBEB_STATE_STOPPED]"
    and "n_wr ?c' = n_wr c" and "n_rd ?c' = n_rd c"
    and "frames_written (strm ?c') = frames_written ?s"
    by simp_all
  with runv show ?thesis by blast
qed

theorem oss_io_record_short_witness:
  "stream_ok (strm (io_start running_record_stream))
   \<and> running (strm (io_start running_record_stream))
   \<and> state (io_start running_record_stream) = CUBEB_STATE_STARTED
   \<and> fd (play (strm (io_start running_record_stream))) = - 1
   \<and> fd (rec_strm (strm (io_start running_record_stream))) = 3
   \<and> fst (data_cb (short_cb_env 1) 0 None 2) = 1
   \<and> (\<exists>c' rb.
         oss_io_routine x86_fpu (short_cb_env 1) running_record_stream = Some (Inr c')
         \<and> state c' = CUBEB_STATE_STOPPED
         \<and> trace c' = [StateCb CUBEB_STATE_STARTED, DataCb rb 2, StateCb CUBEB_STATE_STOPPED]
         \<and> n_wr c' = 0 \<and> n_rd c' = 0 \<and> frames_written (strm c') = 0)"
proof -
  let ?c = "io_start running_record_stream" and ?env = "short_cb_env 1"
  have sel: "strm ?c = running_record_stream" "n_cb ?c = 0" "n_wr ?c = 0" "n_rd ?c = 0"
    "trace ?c = [StateCb CUBEB_STATE_STARTED]"
    by (simp_all add: io_start_def)
  have fields: "running running_record_stream" "fd (play running_record_stream) = - 1"
    "fd (rec_strm running_record_stream) = 3" "nfr running_record_stream = 2"
    "frames_written running_record_stream = 0"
    by (simp_all add: running_record_stream_def play_only_stream_def s16_endpoint_def
          closed_endpoint_def)
  have "stream_ok running_record_stream"
    by (simp add: stream_ok_def endpoint_ok_def running_record_stream_def
          play_only_stream_def s16_endpoint_def closed_endpoint_def)
  then have h1: "stream_ok (strm ?c)"
    by (simp add: sel)
  have h2: "running (strm ?c)" by (simp add: sel fields)
  have h3: "state ?c = CUBEB_STATE_STARTED" by (simp add: io_start_def)
  have h4: "fd (play (strm ?c)) = - 1" by (simp add: sel fields)
  have h5: "fd (rec_strm (strm ?c)) \<noteq> - 1" by (simp add: sel fields)
  have h6: "\<forall>inb. fst (data_cb ?env (n_cb ?c) inb (nfr (strm ?c))) = 1"
    by (simp add: short_cb_env_def)
  have h7: "1 < int (nfr (strm ?c))" "1 \<noteq> CUBEB_ERROR"
    by (simp_all add: sel fields CUBEB_ERROR_def)
  from oss_io_record_short [OF h1 h2 h3 h4 h5 h6 h7, of x86_fpu]
  have "\<exists>c' rb.
         oss_io_routine x86_fpu ?env running_record_stream = Some (Inr c')
         \<and> state c' = CUBEB_STATE_STOPPED
         \<and> trace c' = [StateCb CUBEB_STATE_STARTED, DataCb rb 2, StateCb CUBEB_STATE_STOPPED]
         \<and> n_wr c' = 0 \<and> n_rd c' = 0 \<and> frames_written (strm c') = 0"
    by (simp add: sel fields oss_io_routine_def)
  moreover have "fst (data_cb ?env 0 None 2) = 1"
    by (simp add: short_cb_env_def)
  ultimately show ?thesis
    using h1 h2 h3 by (simp add: sel fields)
qed

lemma oss_io_xfer_transferred:
  assumes fits: "xfer_fits c"
    and whole: "whole_frames env (frame_size (play (strm c))) (frame_size (rec_strm (strm c)))"
    and run: "oss_io_xfer env c = Some (Inr c')"
    and st0: "state c \<noteq> CUBEB_STATE_ERROR" and st': "state c' \<noteq> CUBEB_STATE_ERROR"
  shows "\<exists>evs. trace c' = trace c @ evs \<and> list_all is_device_call evs
           \<and> length (written evs) = to_write c * frame_size (play (strm c))
           \<and> length (was_read evs) = to_read c * frame_size (rec_strm (strm c))
           \<and> write_ofs c' = write_ofs c + to_write c * frame_size (play (strm c))
           \<and> read_ofs c' = read_ofs c + to_read c * frame_size (rec_strm (strm c))
           \<and> frames_written (strm c') = (frames_written (strm c) + to_write c) mod 2 ^ 64
           \<and> to_write c' = 0 \<and> to_read c' = 0"
proof -
  let ?P = "frame_size (play (strm c))"
  from oss_io_xfer_partial [OF run fits whole st0 st']
  have st: "xfer_steps (to_write c) (to_read c) c c'" .
  note f = xfer_steps_fields [OF st]
  from xfer_steps_trace [OF st] obtain evs where
    tr: "trace c' = trace c @ evs" and dev: "list_all is_device_call evs"
    and w: "written evs =
                 (case buf (play (strm c)) of
                    None \<Rightarrow> []
                  | Some pb \<Rightarrow> take (to_write c * ?P) (drop (write_ofs c) pb))"
    and r: "length (was_read evs) = to_read c * frame_size (rec_strm (strm c))"
    by blast
  have lw: "length (written evs) = to_write c * ?P"
  proof (cases "0 < to_write c")
    case True
    with fits obtain pb where "buf (play (strm c)) = Some pb"
      "write_ofs c + to_write c * ?P \<le> length pb"
      unfolding xfer_fits_def by blast
    then show ?thesis by (simp add: w)
  next
    case False
    then show ?thesis by (simp add: w split: option.splits)
  qed
  from tr dev lw r f(9,10,12,1,2) show ?thesis
    by simp
qed

text \<open>
  C7 (as the code has it). In the retry loop of one pass, when every call transfers a
  whole number of frames, no more than asked: with a device that makes progress the loop
  ends and no call has failed; and whenever the loop ends and no \<^verbatim>\<open>write\<close> or \<^verbatim>\<open>read\<close>
  has failed, the bytes written add up to the frames to write times the playback frame
  size, the bytes read to the frames to read times the record frame size, each offset has
  advanced by as much, the frame counter has advanced by the frames written, and nothing
  is left to transfer.
\<close>

theorem oss_io_xfer_sums:
  assumes fits: "xfer_fits c"
    and whole: "whole_frames env (frame_size (play (strm c))) (frame_size (rec_strm (strm c)))"
    and st0: "state c \<noteq> CUBEB_STATE_ERROR"
  shows "(xfer_ready env c \<longrightarrow>
            (\<exists>c'. oss_io_xfer env c = Some (Inr c') \<and> state c' \<noteq> CUBEB_STATE_ERROR))
         \<and> (\<forall>c'. oss_io_xfer env c = Some (Inr c') \<and> state c' \<noteq> CUBEB_STATE_ERROR \<longrightarrow>
               (\<exists>evs. trace c' = trace c @ evs \<and> list_all is_device_call evs
                  \<and> length (written evs) = to_write c * frame_size (play (strm c))
                  \<and> length (was_read evs) = to_read c * frame_size (rec_strm (strm c))
                  \<and> write_ofs c' = write_ofs c + to_write c * frame_size (play (strm c))
                  \<and> read_ofs c' = read_ofs c + to_read c * frame_size (rec_strm (strm c))
                  \<and> frames_written (strm c') = (frames_written (strm c) + to_write c) mod 2 ^ 64
                  \<and> to_write c' = 0 \<and> to_read c' = 0))"
proof (intro conjI impI allI)
  assume "xfer_ready env c"
  from oss_io_xfer_total [OF this] obtain c' where
    run: "oss_io_xfer env c = Some (Inr c')"
    and st: "xfer_steps (to_write c) (to_read c) c c'"
    by blast
  from xfer_steps_fields(5) [OF st] st0 have "state c' \<noteq> CUBEB_STATE_ERROR"
    by simp
  with run show "\<exists>c'. oss_io_xfer env c = Some (Inr c') \<and> state c' \<noteq> CUBEB_STATE_ERROR"
    by blast
next
  fix c'
  assume "oss_io_xfer env c = Some (Inr c') \<and> state c' \<noteq> CUBEB_STATE_ERROR"
  then have run: "oss_io_xfer env c = Some (Inr c')" and st': "state c' \<noteq> CUBEB_STATE_ERROR"
    by simp_all
  from oss_io_xfer_transferred [OF fits whole run st0 st']
  show "\<exists>evs. trace c' = trace c @ evs \<and> list_all is_device_call evs
          \<and> length (written evs) = to_write c * frame_size (play (strm c))
          \<and> length (was_read evs) = to_read c * frame_size (rec_strm (strm c))
          \<and> write_ofs c' = write_ofs c + to_write c * frame_size (play (strm c))
          \<and> read_ofs c' = read_ofs c + to_read c * frame_size (rec_strm (strm c))
          \<and> frames_written (strm c') = (frames_written (strm c) + to_write c) mod 2 ^ 64
          \<and> to_write c' = 0 \<and> to_read c' = 0" .
qed

theorem oss_io_xfer_sums_witness:
  "xfer_fits one_frame_ctx
   \<and> whole_frames (short_cb_env 1) 4 0
   \<and> state one_frame_ctx = CUBEB_STATE_STARTED
   \<and> xfer_ready (short_cb_env 1) one_frame_ctx
   \<and> (\<exists>c'. oss_io_xfer (short_cb_env 1) one_frame_ctx = Some (Inr c')
         \<and> state c' \<noteq> CUBEB_STATE_ERROR
         \<and> (\<exists>evs. trace c' = trace one_frame_ctx @ evs \<and> list_all is_device_call evs
               \<and> length (written evs) = 1 * 4 \<and> length (was_read evs) = 0
               \<and> write_ofs c' = 4 \<and> read_ofs c' = 0
               \<and> frames_written (strm c') = 1
               \<and> to_write c' = 0 \<and> to_read c' = 0))"
proof -
  let ?c = "one_frame_ctx" and ?env = "short_cb_env 1"
  have sel: "to_write ?c = 1" "to_read ?c = 0" "write_ofs ?c = 0" "read_ofs ?c = 0"
    "state ?c = CUBEB_STATE_STARTED" "frame_size (play (strm ?c)) = 4"
    "frame_size (rec_strm (strm ?c)) = 0" "frames_written (strm ?c) = 0"
    "buf (play (strm ?c)) = Some (replicate 8 0)"
    by (simp_all add: one_frame_ctx_def io_start_def running_play_stream_def
          play_only_stream_def s16_endpoint_def closed_endpoint_def)
  have h1: "xfer_fits ?c"
    by (simp add: xfer_fits_def sel)
  have w0: "whole_frames ?env 4 0"
    using int_dvd_int_iff [of 4] by (simp add: whole_frames_def short_cb_env_def)
  then have h2: "whole_frames ?env (frame_size (play (strm ?c))) (frame_size (rec_strm (strm ?c)))"
    by (simp add: sel)
  have h3: "state ?c \<noteq> CUBEB_STATE_ERROR"
    by (simp add: sel)
  have h4: "xfer_ready ?env ?c"
    by (simp add: xfer_ready_def sel writes_ok_short_cb_env)
  note sums = oss_io_xfer_sums [OF h1 h2 h3]
  from sums h4 obtain c' where run: "oss_io_xfer ?env ?c = Some (Inr c')"
    and s': "state c' \<noteq> CUBEB_STATE_ERROR"
    by blast
  with sums
  have "\<exists>evs. trace c' = trace ?c @ evs \<and> list_all is_device_call evs
          \<and> length (written evs) = to_write ?c * frame_size (play (strm ?c))
          \<and> length (was_read evs) = to_read ?c * frame_size (rec_strm (strm ?c))
          \<and> write_ofs c' = write_ofs ?c + to_write ?c * frame_size (play (strm ?c))
          \<and> read_ofs c' = read_ofs ?c + to_read ?c * frame_size (rec_strm (strm ?c))
          \<and> frames_written (strm c')
              = (frames_written (strm ?c) + to_write ?c) mod 2 ^ 64
          \<and> to_write c' = 0 \<and> to_read c' = 0"
    by blast
  then have "\<exists>evs. trace c' = trace ?c @ evs \<and> list_all is_device_call evs
               \<and> length (written evs) = 1 * 4 \<and> length (was_read evs) = 0
               \<and> write_ofs c' = 4 \<and> read_ofs c' = 0
               \<and> frames_written (strm c') = 1
               \<and> to_write c' = 0 \<and> to_read c' = 0"
    by (simp add: sel)
  with h1 w0 h4 run s' show ?thesis
    by (auto simp: sel)
qed

text \<open>
  C7 as stated fails: with one frame of 4 bytes to write and a first \<^verbatim>\<open>write\<close> that takes
  3 bytes, no call fails, yet 7 bytes are written and the offset ends at 7.
\<close>

theorem oss_io_xfer_sums_counterexample:
  "map_option
     (map_sum id (\<lambda>c. (state c, to_write c, length (written (trace c)), write_ofs c,
                         frames_written (strm c))))
     (oss_io_xfer (partial_write_env 1) one_frame_ctx)
     = Some (Inr (CUBEB_STATE_STARTED, 0, 7, 7, 1))"
  by (simp add: io_eval)

text \<open>
  The volume and the record side. Two contexts with the same \<open>sans_volume\<close> are taken by
  every step of the routine to the same trap, or to two contexts with the same
  \<open>sans_volume\<close> again, and one run ends exactly when the other does.
\<close>

lemma io_write_sans_volume:
  assumes "sans_volume c1 = sans_volume c2"
  shows "map_sum id (map_prod id sans_volume) (io_write env c1)
           = map_sum id (map_prod id sans_volume) (io_write env c2)"
proof (cases "buf (play (strm c1))")
  case None
  with assms have "buf (play (strm c2)) = None"
    by (simp add: sans_volume_def)
  with None show ?thesis
    by (simp add: io_write_def)
next
  case (Some b1)
  with assms obtain b2 where b2: "buf (play (strm c2)) = Some b2" "length b2 = length b1"
    by (cases "buf (play (strm c2))") (simp_all add: sans_volume_def)
  from assms Some b2 show ?thesis
    by (simp add: io_write_def Let_def sans_volume_def)
qed

lemma io_read_sans_volume:
  assumes "sans_volume c1 = sans_volume c2"
  shows "map_sum id (map_prod id sans_volume) (io_read env c1)
           = map_sum id (map_prod id sans_volume) (io_read env c2)"
  using assms
  by (simp add: io_read_def Let_def sans_volume_def split: option.splits)

lemma sans_volume_counts:
  "sans_volume c1 = sans_volume c2 \<Longrightarrow> to_write c1 = to_write c2 \<and> to_read c1 = to_read c2"
  by (simp add: sans_volume_def)

lemma sum_view_cases:
  assumes "map_sum id (map_prod id sans_volume) w1 = map_sum id (map_prod id sans_volume) w2"
  shows "(\<exists>t. w1 = Inl t \<and> w2 = Inl t)
         \<or> (\<exists>brk a b. w1 = Inr (brk, a) \<and> w2 = Inr (brk, b) \<and> sans_volume a = sans_volume b)"
  using assms by (cases w1; cases w2) auto

lemma oss_io_xfer_sim:
  assumes run: "oss_io_xfer env c1 = Some y1" and eq: "sans_volume c1 = sans_volume c2"
  shows "\<exists>y2. oss_io_xfer env c2 = Some y2
           \<and> map_sum id sans_volume y1 = map_sum id sans_volume y2"
proof -
  have "\<forall>c2. sans_volume c1 = sans_volume c2
          \<longrightarrow> (\<exists>y2. oss_io_xfer env c2 = Some y2
                 \<and> map_sum id sans_volume y1 = map_sum id sans_volume y2)"
  proof (rule oss_io_xfer.raw_induct
      [where P = "\<lambda>env c1 y1. \<forall>c2. sans_volume c1 = sans_volume c2
          \<longrightarrow> (\<exists>y2. oss_io_xfer env c2 = Some y2
                 \<and> map_sum id sans_volume y1 = map_sum id sans_volume y2)", OF _ run])
    fix xfer env c1 y1
    assume IH: "\<And>c b y. xfer c b = Some y \<Longrightarrow>
          \<forall>c2. sans_volume b = sans_volume c2
          \<longrightarrow> (\<exists>y2. oss_io_xfer c c2 = Some y2
                 \<and> map_sum id sans_volume y = map_sum id sans_volume y2)"
      and body: "(if 0 < to_write c1 \<or> 0 < to_read c1
          then case if 0 < to_write c1 then io_write env c1 else Inr (False, c1) of
               Inl t \<Rightarrow> Some (Inl t)
             | Inr (brk, c) \<Rightarrow>
                 if brk then Some (Inr c)
                 else case if 0 < to_read c then io_read env c else Inr (False, c) of
                        Inl t \<Rightarrow> Some (Inl t)
                      | Inr (brk, c) \<Rightarrow> if brk then Some (Inr c) else xfer env c
          else Some (Inr c1)) = Some y1"
    show "\<forall>c2. sans_volume c1 = sans_volume c2
          \<longrightarrow> (\<exists>y2. oss_io_xfer env c2 = Some y2
                 \<and> map_sum id sans_volume y1 = map_sum id sans_volume y2)"
    proof (intro allI impI)
      fix c2
      assume eq: "sans_volume c1 = sans_volume c2"
      note cnt = sans_volume_counts [OF eq]
      show "\<exists>y2. oss_io_xfer env c2 = Some y2
                 \<and> map_sum id sans_volume y1 = map_sum id sans_volume y2"
      proof (cases "0 < to_write c1 \<or> 0 < to_read c1")
        case False
        with body have "y1 = Inr c1" by simp
        moreover from False cnt have "oss_io_xfer env c2 = Some (Inr c2)"
          by (subst oss_io_xfer.simps) simp
        ultimately show ?thesis using eq by simp
      next
        case True
        let ?w1 = "if 0 < to_write c1 then io_write env c1 else Inr (False, c1)"
        let ?w2 = "if 0 < to_write c2 then io_write env c2 else Inr (False, c2)"
        have "map_sum id (map_prod id sans_volume) ?w1 = map_sum id (map_prod id sans_volume) ?w2"
          using io_write_sans_volume [OF eq, of env] eq cnt by simp
        from sum_view_cases [OF this] show ?thesis
        proof (elim disjE exE conjE)
          fix t assume w: "?w1 = Inl t" "?w2 = Inl t"
          with body True have "y1 = Inl t" by simp
          moreover from True cnt w have "oss_io_xfer env c2 = Some (Inl t)"
            by (subst oss_io_xfer.simps) simp
          ultimately show ?thesis by simp
        next
          fix brk a1 a2
          assume w: "?w1 = Inr (brk, a1)" "?w2 = Inr (brk, a2)"
            and eqa: "sans_volume a1 = sans_volume a2"
          note cnta = sans_volume_counts [OF eqa]
          show ?thesis
          proof (cases brk)
            case brk: True
            with body True w have "y1 = Inr a1" by simp
            moreover from True cnt w brk have "oss_io_xfer env c2 = Some (Inr a2)"
              by (subst oss_io_xfer.simps) simp
            ultimately show ?thesis using eqa by simp
          next
            case nbrk: False
            let ?r1 = "if 0 < to_read a1 then io_read env a1 else Inr (False, a1)"
            let ?r2 = "if 0 < to_read a2 then io_read env a2 else Inr (False, a2)"
            have "map_sum id (map_prod id sans_volume) ?r1
                    = map_sum id (map_prod id sans_volume) ?r2"
              using io_read_sans_volume [OF eqa, of env] eqa cnta by simp
            from sum_view_cases [OF this] show ?thesis
            proof (elim disjE exE conjE)
              fix t assume r: "?r1 = Inl t" "?r2 = Inl t"
              with body True w nbrk have "y1 = Inl t" by simp
              moreover from True cnt w nbrk r have "oss_io_xfer env c2 = Some (Inl t)"
                by (subst oss_io_xfer.simps) simp
              ultimately show ?thesis by simp
            next
              fix brk' b1 b2
              assume r: "?r1 = Inr (brk', b1)" "?r2 = Inr (brk', b2)"
                and eqb: "sans_volume b1 = sans_volume b2"
              show ?thesis
              proof (cases brk')
                case brk': True
                with body True w nbrk r have "y1 = Inr b1" by simp
                moreover from True cnt w nbrk r brk' have "oss_io_xfer env c2 = Some (Inr b2)"
                  by (subst oss_io_xfer.simps) simp
                ultimately show ?thesis using eqb by simp
              next
                case nbrk': False
                with body True w nbrk r have "xfer env b1 = Some y1" by simp
                from IH [OF this] eqb obtain y2 where
                  "oss_io_xfer env b2 = Some y2"
                  "map_sum id sans_volume y1 = map_sum id sans_volume y2"
                  by blast
                moreover from True cnt w nbrk r nbrk'
                have "oss_io_xfer env c2 = oss_io_xfer env b2"
                  by (subst oss_io_xfer.simps) simp
                ultimately show ?thesis by simp
              qed
            qed
          qed
        qed
      qed
    qed
  qed
  with eq show ?thesis by blast
qed

lemma oss_io_xfer_sans_volume:
  assumes eq: "sans_volume c1 = sans_volume c2"
  shows "map_option (map_sum id sans_volume) (oss_io_xfer env c1)
           = map_option (map_sum id sans_volume) (oss_io_xfer env c2)"
proof (cases "oss_io_xfer env c1")
  case None
  show ?thesis
  proof (cases "oss_io_xfer env c2")
    case n2: None
    with None show ?thesis by simp
  next
    case (Some y2)
    from oss_io_xfer_sim [OF Some eq [symmetric]] None show ?thesis by simp
  qed
next
  case (Some y1)
  from oss_io_xfer_sim [OF Some eq] Some show ?thesis by auto
qed

lemma on_cells32_float_shape:
  "(length b div 4 < n \<and> on_cells32 (\<lambda>cs. oss_float_to_linear32 fp cs n vol) b = Inl OutOfBounds)
   \<or> (\<not> length b div 4 < n
       \<and> (\<exists>b'. on_cells32 (\<lambda>cs. oss_float_to_linear32 fp cs n vol) b = Inr b'
                \<and> length b' = length b))"
proof (cases "length b div 4 < n")
  case True
  then show ?thesis
    by (simp add: on_cells32_def oss_float_to_linear32_def length_cells32)
next
  case False
  then have "oss_float_to_linear32 fp (cells32 b) n vol
               = Inr (float_to_linear32_loop fp vol n 0 (cells32 b))"
    by (simp add: oss_float_to_linear32_def length_cells32)
  from on_cells32_length [of "\<lambda>cs. oss_float_to_linear32 fp cs n vol", OF this]
  show ?thesis using False by (simp add: float_to_linear32_loop_length)
qed

lemma on_cells16_vol_shape:
  "(length b div 2 < n \<and> on_cells16 (\<lambda>cs. oss_linear16_set_vol fp cs n vol) b = Inl OutOfBounds)
   \<or> (\<not> length b div 2 < n
       \<and> (\<exists>b'. on_cells16 (\<lambda>cs. oss_linear16_set_vol fp cs n vol) b = Inr b'
                \<and> length b' = length b))"
proof (cases "length b div 2 < n")
  case True
  then show ?thesis
    by (simp add: on_cells16_def oss_linear16_set_vol_def length_cells16)
next
  case False
  then have "oss_linear16_set_vol fp (cells16 b) n vol
               = Inr (linear16_set_vol_loop (f_to_int32 fp (f_mul fp vol (f_of_int fp 0x8000)))
                        n 0 (cells16 b))"
    by (simp add: oss_linear16_set_vol_def length_cells16)
  from on_cells16_length [of "\<lambda>cs. oss_linear16_set_vol fp cs n vol", OF this]
  show ?thesis using False by (simp add: linear16_set_vol_loop_length)
qed

lemma io_convert_play_cases:
  assumes e: "fd (play s1) = fd (play s2)" "info (play s1) = info (play s2)"
    "floating (play s1) = floating (play s2)"
    "map_option length (buf (play s1)) = map_option length (buf (play s2))"
  shows "(\<exists>t. io_convert_play fp r s1 = Inl t \<and> io_convert_play fp r s2 = Inl t)
         \<or> (\<exists>b1 b2. io_convert_play fp r s1 = Inr (s1\<lparr>play := (play s1)\<lparr>buf := b1\<rparr>\<rparr>)
               \<and> io_convert_play fp r s2 = Inr (s2\<lparr>play := (play s2)\<lparr>buf := b2\<rparr>\<rparr>)
               \<and> map_option length b1 = map_option length b2)"
proof (cases "fd (play s1) \<noteq> - 1")
  case False
  with e(1) have "io_convert_play fp r s1 = Inr (s1\<lparr>play := (play s1)\<lparr>buf := buf (play s1)\<rparr>\<rparr>)"
    "io_convert_play fp r s2 = Inr (s2\<lparr>play := (play s2)\<lparr>buf := buf (play s2)\<rparr>\<rparr>)"
    by (simp_all add: io_convert_play_def)
  with e(4) show ?thesis by blast
next
  case act: True
  show ?thesis
  proof (cases "buf (play s1)")
    case None
    with e(4) have "buf (play s2) = None" by simp
    with None act e(1) show ?thesis
      by (simp add: io_convert_play_def Let_def)
  next
    case (Some b1)
    with e(4) obtain b2 where b2: "buf (play s2) = Some b2" "length b2 = length b1"
      by (cases "buf (play s2)") simp_all
    let ?n = "to_uint32 (channels (info (play s1)) * r)"
    let ?x1 = "if floating (play s1)
               then on_cells32 (\<lambda>cs. oss_float_to_linear32 fp cs ?n (volume s1)) b1
               else on_cells16 (\<lambda>cs. oss_linear16_set_vol fp cs ?n (volume s1)) b1"
    let ?x2 = "if floating (play s1)
               then on_cells32 (\<lambda>cs. oss_float_to_linear32 fp cs ?n (volume s2)) b2
               else on_cells16 (\<lambda>cs. oss_linear16_set_vol fp cs ?n (volume s2)) b2"
    have c1: "io_convert_play fp r s1 =
                (case ?x1 of Inl t \<Rightarrow> Inl t
                 | Inr b' \<Rightarrow> Inr (s1\<lparr>play := (play s1)\<lparr>buf := Some b'\<rparr>\<rparr>))"
      using act Some by (simp add: io_convert_play_def Let_def)
    have c2: "io_convert_play fp r s2 =
                (case ?x2 of Inl t \<Rightarrow> Inl t
                 | Inr b' \<Rightarrow> Inr (s2\<lparr>play := (play s2)\<lparr>buf := Some b'\<rparr>\<rparr>))"
      using act e(1-3) b2 by (simp add: io_convert_play_def Let_def)
    have "(?x1 = Inl OutOfBounds \<and> ?x2 = Inl OutOfBounds)
          \<or> (\<exists>x y. ?x1 = Inr x \<and> ?x2 = Inr y \<and> length x = length y)"
    proof (cases "floating (play s1)")
      case True
      from on_cells32_float_shape [of b1 ?n fp "volume s1"]
        on_cells32_float_shape [of b2 ?n fp "volume s2"] b2(2) True
      show ?thesis by (elim disjE conjE exE) simp_all
    next
      case False
      from on_cells16_vol_shape [of b1 ?n fp "volume s1"]
        on_cells16_vol_shape [of b2 ?n fp "volume s2"] b2(2) False
      show ?thesis by (elim disjE conjE exE) simp_all
    qed
    then show ?thesis
    proof (elim disjE conjE exE)
      assume "?x1 = Inl OutOfBounds" "?x2 = Inl OutOfBounds"
      then have "io_convert_play fp r s1 = Inl OutOfBounds"
        "io_convert_play fp r s2 = Inl OutOfBounds"
        by (simp_all only: c1 c2 sum.case)
      then show ?thesis by blast
    next
      fix x y assume "?x1 = Inr x" "?x2 = Inr y" and l: "length x = length y"
      then have "io_convert_play fp r s1 = Inr (s1\<lparr>play := (play s1)\<lparr>buf := Some x\<rparr>\<rparr>)"
        "io_convert_play fp r s2 = Inr (s2\<lparr>play := (play s2)\<lparr>buf := Some y\<rparr>\<rparr>)"
        by (simp_all only: c1 c2 sum.case)
      moreover have "map_option length (Some x) = map_option length (Some y)"
        using l by simp
      ultimately show ?thesis by blast
    qed
  qed
qed

lemma io_convert_record_cases:
  assumes e: "rec_strm s1 = rec_strm s2" "nfr s1 = nfr s2"
  shows "(\<exists>t. io_convert_record fp s1 = Inl t \<and> io_convert_record fp s2 = Inl t)
         \<or> (\<exists>x. io_convert_record fp s1 = Inr (s1\<lparr>rec_strm := x\<rparr>)
               \<and> io_convert_record fp s2 = Inr (s2\<lparr>rec_strm := x\<rparr>))"
proof (cases "io_convert_record fp s1")
  case (Inl t)
  with e have "io_convert_record fp s2 = Inl t"
    by (auto simp: io_convert_record_def split: if_splits option.splits sum.splits)
  with Inl show ?thesis by blast
next
  case (Inr s1')
  with e have "io_convert_record fp s1 = Inr (s1\<lparr>rec_strm := rec_strm s1'\<rparr>)
        \<and> io_convert_record fp s2 = Inr (s2\<lparr>rec_strm := rec_strm s1'\<rparr>)"
    by (auto simp: io_convert_record_def split: if_splits option.splits sum.splits)
  then show ?thesis by blast
qed

lemma opt_view_cases:
  assumes "map_option (map_sum id sans_volume) w1 = map_option (map_sum id sans_volume) w2"
  shows "(w1 = None \<and> w2 = None) \<or> (\<exists>t. w1 = Some (Inl t) \<and> w2 = Some (Inl t))
         \<or> (\<exists>a b. w1 = Some (Inr a) \<and> w2 = Some (Inr b) \<and> sans_volume a = sans_volume b)"
proof (cases w1)
  case None
  with assms show ?thesis by simp
next
  case s1: (Some y1)
  with assms obtain y2 where s2: "w2 = Some y2"
    and y: "map_sum id sans_volume y1 = map_sum id sans_volume y2"
    by (cases w2) simp_all
  from y s1 s2 show ?thesis by (cases y1; cases y2) simp_all
qed

lemma oss_io_iter_sans_volume:
  assumes eq: "sans_volume c1 = sans_volume c2"
  shows "map_option (map_sum id sans_volume) (oss_io_iter fp env c1)
           = map_option (map_sum id sans_volume) (oss_io_iter fp env c2)"
proof -
  let ?s1 = "strm c1" and ?s2 = "strm c2"
  from eq have f: "running ?s1 = running ?s2" "fd (play ?s1) = fd (play ?s2)"
    "rec_strm ?s1 = rec_strm ?s2" "nfr ?s1 = nfr ?s2" "info (play ?s1) = info (play ?s2)"
    "floating (play ?s1) = floating (play ?s2)"
    "map_option length (buf (play ?s1)) = map_option length (buf (play ?s2))"
    "n_cb c1 = n_cb c2" "drain c1 = drain c2"
    by (simp_all add: sans_volume_def)
  show ?thesis
  proof (cases "\<not> running ?s1 \<or> (fd (play ?s1) = - 1 \<and> fd (rec_strm ?s1) = - 1)")
    case True
    with f have "oss_io_iter fp env c1 = Some (Inr (c1\<lparr>state := CUBEB_STATE_STOPPED\<rparr>))"
      "oss_io_iter fp env c2 = Some (Inr (c2\<lparr>state := CUBEB_STATE_STOPPED\<rparr>))"
      by (auto simp: oss_io_iter_def)
    with eq show ?thesis by (simp add: sans_volume_def)
  next
    case False
    then have go: "running ?s1" "\<not> (fd (play ?s1) = - 1 \<and> fd (rec_strm ?s1) = - 1)"
      "running ?s2" "\<not> (fd (play ?s2) = - 1 \<and> fd (rec_strm ?s2) = - 1)"
      using f by auto
    from io_convert_record_cases [OF f(3,4), of fp] show ?thesis
    proof (elim disjE exE conjE)
      fix t assume "io_convert_record fp ?s1 = Inl t" "io_convert_record fp ?s2 = Inl t"
      with go show ?thesis by (auto simp: oss_io_iter_def Let_def)
    next
      fix x assume cr: "io_convert_record fp ?s1 = Inr (?s1\<lparr>rec_strm := x\<rparr>)"
        "io_convert_record fp ?s2 = Inr (?s2\<lparr>rec_strm := x\<rparr>)"
      obtain r out where cb: "data_cb env (n_cb c1) (buf x) (nfr ?s1) = (r, out)"
        by fastforce
      let ?r1 = "?s1\<lparr>rec_strm := x\<rparr>" and ?r2 = "?s2\<lparr>rec_strm := x\<rparr>"
      from cb f(4,8)
      have cb1: "data_cb env (n_cb c1) (buf (rec_strm ?r1)) (nfr ?r1) = (r, out)"
        and cb2: "data_cb env (n_cb c2) (buf (rec_strm ?r2)) (nfr ?r2) = (r, out)"
        by simp_all
      from go have g: "(\<not> running ?s1) = False"
        "(fd (play ?s1) = - 1 \<and> fd (rec_strm ?s1) = - 1) = False"
        "(\<not> running ?s2) = False"
        "(fd (play ?s2) = - 1 \<and> fd (rec_strm ?s2) = - 1) = False"
        by simp_all
      define a1 where "a1 = c1\<lparr>cb_nfr := r, n_cb := n_cb c1 + 1,
                                trace := trace c1 @ [DataCb (buf (rec_strm ?r1)) (nfr ?r1)]\<rparr>"
      define a2 where "a2 = c2\<lparr>cb_nfr := r, n_cb := n_cb c2 + 1,
                                trace := trace c2 @ [DataCb (buf (rec_strm ?r2)) (nfr ?r2)]\<rparr>"
      define t1 where "t1 = ?r1\<lparr>play := (play ?r1)\<lparr>buf :=
                                  map_option (\<lambda>b. overlay b 0 out) (buf (play ?r1))\<rparr>\<rparr>"
      define t2 where "t2 = ?r2\<lparr>play := (play ?r2)\<lparr>buf :=
                                  map_option (\<lambda>b. overlay b 0 out) (buf (play ?r2))\<rparr>\<rparr>"
      define rest where "rest = (\<lambda>c s.
          if r < int (nfr s) \<and> fd (play s) = - 1
          then Some (Inr (c\<lparr>strm := s, state := CUBEB_STATE_STOPPED\<rparr>))
          else
            (case oss_io_xfer env
                    (c\<lparr>strm := s,
                       drain := (drain c \<or> r < int (nfr s)),
                       to_write := (if fd (play s) \<noteq> - 1 then to_uint64 r else 0),
                       to_read := (if fd (rec_strm s) \<noteq> - 1 then nfr s else 0),
                       write_ofs := 0, read_ofs := 0\<rparr>) of
               None \<Rightarrow> None
             | Some (Inl t) \<Rightarrow> Some (Inl t)
             | Some (Inr c) \<Rightarrow>
                 Some (Inr (if drain c \<and> state c \<noteq> CUBEB_STATE_ERROR
                            then c\<lparr>state := CUBEB_STATE_DRAINED\<rparr>
                            else c))))"
      have it1: "oss_io_iter fp env c1 =
          (if r = CUBEB_ERROR then Some (Inr (a1\<lparr>strm := t1, state := CUBEB_STATE_ERROR\<rparr>))
           else (case io_convert_play fp r t1 of
                   Inl t \<Rightarrow> Some (Inl t)
                 | Inr s \<Rightarrow> rest a1 s))"
        unfolding oss_io_iter_def Let_def a1_def t1_def rest_def
        by (simp only: g if_False cr(1) sum.case cb1 prod.case)
      have it2: "oss_io_iter fp env c2 =
          (if r = CUBEB_ERROR then Some (Inr (a2\<lparr>strm := t2, state := CUBEB_STATE_ERROR\<rparr>))
           else (case io_convert_play fp r t2 of
                   Inl t \<Rightarrow> Some (Inl t)
                 | Inr s \<Rightarrow> rest a2 s))"
        unfolding oss_io_iter_def Let_def a2_def t2_def rest_def
        by (simp only: g if_False cr(2) sum.case cb2 prod.case)
      have ea: "sans_volume (a1\<lparr>strm := t1\<rparr>) = sans_volume (a2\<lparr>strm := t2\<rparr>)"
        using eq
        by (simp add: sans_volume_def a1_def a2_def t1_def t2_def option.map_comp comp_def
            length_overlay)
      have te: "fd (play t1) = fd (play t2)" "info (play t1) = info (play t2)"
        "floating (play t1) = floating (play t2)"
        "map_option length (buf (play t1)) = map_option length (buf (play t2))"
        using ea by (simp_all add: sans_volume_def)
      show ?thesis
      proof (cases "r = CUBEB_ERROR")
        case True
        with it1 it2 ea show ?thesis by (simp add: sans_volume_def)
      next
        case ne: False
        from io_convert_play_cases [OF te, of fp r] show ?thesis
        proof (elim disjE exE conjE)
          fix t assume "io_convert_play fp r t1 = Inl t" "io_convert_play fp r t2 = Inl t"
          with it1 it2 ne show ?thesis by simp
        next
          fix b1 b2
          assume cp: "io_convert_play fp r t1 = Inr (t1\<lparr>play := (play t1)\<lparr>buf := b1\<rparr>\<rparr>)"
            "io_convert_play fp r t2 = Inr (t2\<lparr>play := (play t2)\<lparr>buf := b2\<rparr>\<rparr>)"
            and bl: "map_option length b1 = map_option length b2"
          define u1 where "u1 = t1\<lparr>play := (play t1)\<lparr>buf := b1\<rparr>\<rparr>"
          define u2 where "u2 = t2\<lparr>play := (play t2)\<lparr>buf := b2\<rparr>\<rparr>"
          from it1 it2 ne cp have it: "oss_io_iter fp env c1 = rest a1 u1"
            "oss_io_iter fp env c2 = rest a2 u2"
            by (simp_all add: u1_def u2_def)
          have eu: "sans_volume (a1\<lparr>strm := u1\<rparr>) = sans_volume (a2\<lparr>strm := u2\<rparr>)"
            using ea bl by (simp add: sans_volume_def u1_def u2_def)
          then have ue: "nfr u1 = nfr u2" "fd (play u1) = fd (play u2)"
            "fd (rec_strm u1) = fd (rec_strm u2)" "drain a1 = drain a2"
            by (simp_all add: sans_volume_def)
          show ?thesis
          proof (cases "r < int (nfr u1) \<and> fd (play u1) = - 1")
            case True
            with ue have "rest a1 u1 = Some (Inr (a1\<lparr>strm := u1, state := CUBEB_STATE_STOPPED\<rparr>))"
              "rest a2 u2 = Some (Inr (a2\<lparr>strm := u2, state := CUBEB_STATE_STOPPED\<rparr>))"
              by (simp_all add: rest_def)
            with it eu show ?thesis by (simp add: sans_volume_def)
          next
            case False
            define x1 where "x1 = a1\<lparr>strm := u1,
                       drain := (drain a1 \<or> r < int (nfr u1)),
                       to_write := (if fd (play u1) \<noteq> - 1 then to_uint64 r else 0),
                       to_read := (if fd (rec_strm u1) \<noteq> - 1 then nfr u1 else 0),
                       write_ofs := 0, read_ofs := 0\<rparr>"
            define x2 where "x2 = a2\<lparr>strm := u2,
                       drain := (drain a2 \<or> r < int (nfr u2)),
                       to_write := (if fd (play u2) \<noteq> - 1 then to_uint64 r else 0),
                       to_read := (if fd (rec_strm u2) \<noteq> - 1 then nfr u2 else 0),
                       write_ofs := 0, read_ofs := 0\<rparr>"
            define fin where "fin = (\<lambda>c :: io_ctx. if drain c \<and> state c \<noteq> CUBEB_STATE_ERROR
                            then c\<lparr>state := CUBEB_STATE_DRAINED\<rparr> else c)"
            have fin_eq: "sans_volume (fin a) = sans_volume (fin b)"
              if "sans_volume a = sans_volume b" for a b
              using that by (simp add: sans_volume_def fin_def)
            from False ue have g: "(r < int (nfr u1) \<and> fd (play u1) = - 1) = False"
              "(r < int (nfr u2) \<and> fd (play u2) = - 1) = False"
              by simp_all
            have r1: "rest a1 u1 =
                (case oss_io_xfer env x1 of None \<Rightarrow> None
                 | Some (Inl t) \<Rightarrow> Some (Inl t)
                 | Some (Inr c) \<Rightarrow> Some (Inr (fin c)))"
              unfolding rest_def x1_def fin_def by (simp only: g if_False)
            have r2: "rest a2 u2 =
                (case oss_io_xfer env x2 of None \<Rightarrow> None
                 | Some (Inl t) \<Rightarrow> Some (Inl t)
                 | Some (Inr c) \<Rightarrow> Some (Inr (fin c)))"
              unfolding rest_def x2_def fin_def by (simp only: g if_False)
            have ex: "sans_volume x1 = sans_volume x2"
              using eu by (simp add: sans_volume_def x1_def x2_def)
            from opt_view_cases [OF oss_io_xfer_sans_volume [OF ex, of env]]
            show ?thesis
            proof (elim disjE exE conjE)
              assume "oss_io_xfer env x1 = None" "oss_io_xfer env x2 = None"
              with it r1 r2 show ?thesis by simp
            next
              fix t assume "oss_io_xfer env x1 = Some (Inl t)" "oss_io_xfer env x2 = Some (Inl t)"
              with it r1 r2 show ?thesis by simp
            next
              fix a b assume "oss_io_xfer env x1 = Some (Inr a)"
                "oss_io_xfer env x2 = Some (Inr b)" and "sans_volume a = sans_volume b"
              with it r1 r2 fin_eq [of a b] show ?thesis by simp
            qed
          qed
        qed
      qed
    qed
  qed
qed

lemma oss_io_loop_sim:
  assumes run: "oss_io_loop fp env c1 = Some y1" and eq: "sans_volume c1 = sans_volume c2"
  shows "\<exists>y2. oss_io_loop fp env c2 = Some y2
           \<and> map_sum id sans_volume y1 = map_sum id sans_volume y2"
proof -
  have "\<forall>c2. sans_volume c1 = sans_volume c2
          \<longrightarrow> (\<exists>y2. oss_io_loop fp env c2 = Some y2
                 \<and> map_sum id sans_volume y1 = map_sum id sans_volume y2)"
  proof (rule oss_io_loop.raw_induct
      [where P = "\<lambda>fp env c1 y1. \<forall>c2. sans_volume c1 = sans_volume c2
          \<longrightarrow> (\<exists>y2. oss_io_loop fp env c2 = Some y2
                 \<and> map_sum id sans_volume y1 = map_sum id sans_volume y2)", OF _ run])
    fix loop fp env c1 y1
    assume IH: "\<And>a b c y. loop a b c = Some y \<Longrightarrow>
          \<forall>c2. sans_volume c = sans_volume c2
          \<longrightarrow> (\<exists>y2. oss_io_loop a b c2 = Some y2
                 \<and> map_sum id sans_volume y = map_sum id sans_volume y2)"
      and body: "(if state c1 = CUBEB_STATE_STARTED
          then case oss_io_iter fp env c1 of
                 None \<Rightarrow> None
               | Some (Inl t) \<Rightarrow> Some (Inl t)
               | Some (Inr c) \<Rightarrow> loop fp env c
          else Some (Inr c1)) = Some y1"
    show "\<forall>c2. sans_volume c1 = sans_volume c2
          \<longrightarrow> (\<exists>y2. oss_io_loop fp env c2 = Some y2
                 \<and> map_sum id sans_volume y1 = map_sum id sans_volume y2)"
    proof (intro allI impI)
      fix c2
      assume eq: "sans_volume c1 = sans_volume c2"
      then have st: "state c1 = state c2" by (simp add: sans_volume_def)
      show "\<exists>y2. oss_io_loop fp env c2 = Some y2
                 \<and> map_sum id sans_volume y1 = map_sum id sans_volume y2"
      proof (cases "state c1 = CUBEB_STATE_STARTED")
        case False
        with body have "y1 = Inr c1" by simp
        moreover from False st have "oss_io_loop fp env c2 = Some (Inr c2)"
          by (subst oss_io_loop.simps) simp
        ultimately show ?thesis using eq by simp
      next
        case True
        from opt_view_cases [OF oss_io_iter_sans_volume [OF eq, of fp env]] show ?thesis
        proof (elim disjE exE conjE)
          assume "oss_io_iter fp env c1 = None"
          with body True show ?thesis by simp
        next
          fix t assume it: "oss_io_iter fp env c1 = Some (Inl t)"
            "oss_io_iter fp env c2 = Some (Inl t)"
          with body True have "y1 = Inl t" by simp
          moreover from True st it have "oss_io_loop fp env c2 = Some (Inl t)"
            by (subst oss_io_loop.simps) simp
          ultimately show ?thesis by simp
        next
          fix a b assume it: "oss_io_iter fp env c1 = Some (Inr a)"
            "oss_io_iter fp env c2 = Some (Inr b)" and eqa: "sans_volume a = sans_volume b"
          with body True have "loop fp env a = Some y1" by simp
          from IH [OF this] eqa obtain y2 where
            "oss_io_loop fp env b = Some y2"
            "map_sum id sans_volume y1 = map_sum id sans_volume y2"
            by blast
          moreover from True st it have "oss_io_loop fp env c2 = oss_io_loop fp env b"
            by (subst oss_io_loop.simps) simp
          ultimately show ?thesis by simp
        qed
      qed
    qed
  qed
  with eq show ?thesis by blast
qed

lemma oss_io_loop_sans_volume:
  assumes eq: "sans_volume c1 = sans_volume c2"
  shows "map_option (map_sum id sans_volume) (oss_io_loop fp env c1)
           = map_option (map_sum id sans_volume) (oss_io_loop fp env c2)"
proof (cases "oss_io_loop fp env c1")
  case None
  show ?thesis
  proof (cases "oss_io_loop fp env c2")
    case n2: None
    with None show ?thesis by simp
  next
    case (Some y2)
    from oss_io_loop_sim [OF Some eq [symmetric]] None show ?thesis by simp
  qed
next
  case (Some y1)
  from oss_io_loop_sim [OF Some eq] Some show ?thesis by auto
qed

lemma data_cb_inputs_erase: "data_cb_inputs (map erase_event tr) = data_cb_inputs tr"
  by (induction tr rule: data_cb_inputs.induct) simp_all

lemma record_view_sans_volume:
  assumes "sans_volume a = sans_volume b"
  shows "record_view fp a = record_view fp b"
proof -
  from assms have "map erase_event (trace a) = map erase_event (trace b)"
    and r: "rec_strm (strm a) = rec_strm (strm b)" "nfr (strm a) = nfr (strm b)"
    and st: "state a = state b"
    by (simp_all add: sans_volume_def)
  then have "data_cb_inputs (map erase_event (trace a)) = data_cb_inputs (map erase_event (trace b))"
    by simp
  then have tr: "data_cb_inputs (trace a) = data_cb_inputs (trace b)"
    by (simp only: data_cb_inputs_erase)
  have "map_sum id (\<lambda>s. buf (rec_strm s)) (io_convert_record fp (strm a))
          = map_sum id (\<lambda>s. buf (rec_strm s)) (io_convert_record fp (strm b))"
    using io_convert_record_cases [OF r, of fp] by (elim disjE exE conjE) simp_all
  with tr r st show ?thesis by (simp add: record_view_def)
qed

lemma oss_io_run_sans_volume:
  assumes eq: "sans_volume c1 = sans_volume c2"
  shows "map_option (map_sum id sans_volume) (oss_io_run fp env c1)
           = map_option (map_sum id sans_volume) (oss_io_run fp env c2)"
  using opt_view_cases [OF oss_io_loop_sans_volume [OF eq, of fp env]]
proof (elim disjE exE conjE)
  assume "oss_io_loop fp env c1 = None" "oss_io_loop fp env c2 = None"
  then show ?thesis by (simp add: oss_io_run_def)
next
  fix t assume "oss_io_loop fp env c1 = Some (Inl t)" "oss_io_loop fp env c2 = Some (Inl t)"
  then show ?thesis by (simp add: oss_io_run_def)
next
  fix a b assume l: "oss_io_loop fp env c1 = Some (Inr a)" "oss_io_loop fp env c2 = Some (Inr b)"
    and e: "sans_volume a = sans_volume b"
  from e have "sans_volume (a\<lparr>trace := trace a @ [StateCb (state a)]\<rparr>)
                 = sans_volume (b\<lparr>trace := trace b @ [StateCb (state b)]\<rparr>)"
    by (simp add: sans_volume_def)
  with l show ?thesis by (simp add: oss_io_run_def)
qed

lemma view_of_sans_volume:
  assumes "map_option (map_sum id sans_volume) w1 = map_option (map_sum id sans_volume) w2"
  shows "map_option (map_sum id (record_view fp)) w1 = map_option (map_sum id (record_view fp)) w2"
  using opt_view_cases [OF assms]
proof (elim disjE exE conjE)
  fix a b assume "w1 = Some (Inr a)" "w2 = Some (Inr b)" "sans_volume a = sans_volume b"
  with record_view_sans_volume [of a b fp] show ?thesis by simp
qed simp_all

text \<open>
  The passes with the control thread at work: whatever volumes are set, and whenever, two
  runs that are stopped at the same passes stay the same but for the volume and what the
  playback side makes of it.
\<close>

lemma control_calls_sans_volume:
  assumes "sans_volume c1 = sans_volume c2"
  shows "sans_volume (c1\<lparr>strm := control_calls stop v1 (strm c1)\<rparr>)
           = sans_volume (c2\<lparr>strm := control_calls stop v2 (strm c2)\<rparr>)"
  using assms
  by (simp add: sans_volume_def control_calls_def oss_stream_set_volume_def split: option.splits)

lemma oss_io_passes_sans_volume:
  assumes "sans_volume c1 = sans_volume c2"
  shows "map_option (map_sum id sans_volume) (oss_io_passes fp env stops sets1 n c1)
           = map_option (map_sum id sans_volume) (oss_io_passes fp env stops sets2 n c2)"
  using assms
proof (induction n arbitrary: c1 c2 stops sets1 sets2)
  case 0
  then show ?case by simp
next
  case (Suc n)
  note eq = \<open>sans_volume c1 = sans_volume c2\<close>
  then have st: "state c1 = state c2" by (simp add: sans_volume_def)
  show ?case
  proof (cases "state c1 = CUBEB_STATE_STARTED")
    case False
    with st eq show ?thesis by simp
  next
    case True
    let ?d1 = "c1\<lparr>strm := control_calls (stops 0) (sets1 0) (strm c1)\<rparr>"
    let ?d2 = "c2\<lparr>strm := control_calls (stops 0) (sets2 0) (strm c2)\<rparr>"
    from opt_view_cases [OF oss_io_iter_sans_volume [OF control_calls_sans_volume [OF eq, of "stops 0" "sets1 0" "sets2 0"], of fp env]]
    show ?thesis
    proof (elim disjE exE conjE)
      assume "oss_io_iter fp env ?d1 = None" "oss_io_iter fp env ?d2 = None"
      with True st show ?thesis by simp
    next
      fix t assume "oss_io_iter fp env ?d1 = Some (Inl t)" "oss_io_iter fp env ?d2 = Some (Inl t)"
      with True st show ?thesis by simp
    next
      fix a b assume it: "oss_io_iter fp env ?d1 = Some (Inr a)"
        "oss_io_iter fp env ?d2 = Some (Inr b)" and e: "sans_volume a = sans_volume b"
      from Suc.IH [OF e] it True st show ?thesis by simp
    qed
  qed
qed

text \<open>
  With no call of the control thread the passes are those of \<open>oss_io_loop\<close>: a run of the
  loop that returns is a number of passes, and passes that end out of \<open>STARTED\<close>, or in a
  trap, are the run of the loop.
\<close>

lemma control_calls_none: "control_calls False None s = s"
  by (simp add: control_calls_def)

lemma oss_io_passes_loop:
  assumes "oss_io_passes fp env (\<lambda>i. False) (\<lambda>i. None) n c = Some y"
    and "case y of Inl t \<Rightarrow> True | Inr c' \<Rightarrow> state c' \<noteq> CUBEB_STATE_STARTED"
  shows "oss_io_loop fp env c = Some y"
  using assms
proof (induction n arbitrary: c)
  case 0
  then show ?case by (subst oss_io_loop.simps) auto
next
  case (Suc n)
  show ?case
  proof (cases "state c = CUBEB_STATE_STARTED")
    case False
    with Suc.prems show ?thesis by (subst oss_io_loop.simps) simp
  next
    case True
    show ?thesis
    proof (cases "oss_io_iter fp env c")
      case None
      with Suc.prems True show ?thesis by (simp add: control_calls_none)
    next
      case (Some r)
      show ?thesis
      proof (cases r)
        case (Inl t)
        with Suc.prems True Some show ?thesis
          by (subst oss_io_loop.simps) (auto simp: control_calls_none)
      next
        case (Inr c')
        with Suc.prems True Some have "oss_io_passes fp env (\<lambda>i. False) (\<lambda>i. None) n c' = Some y"
          by (simp add: control_calls_none)
        from Suc.IH [OF this Suc.prems(2)] True Some Inr show ?thesis
          by (subst oss_io_loop.simps) simp
      qed
    qed
  qed
qed

lemma oss_io_loop_passes:
  assumes run: "oss_io_loop fp env c = Some y"
  shows "\<exists>n. oss_io_passes fp env (\<lambda>i. False) (\<lambda>i. None) n c = Some y"
proof (rule oss_io_loop.raw_induct
    [where P = "\<lambda>fp env c y. \<exists>n. oss_io_passes fp env (\<lambda>i. False) (\<lambda>i. None) n c = Some y",
     OF _ run])
  fix loop fp env c y
  assume IH: "\<And>a b c y. loop a b c = Some y \<Longrightarrow>
          \<exists>n. oss_io_passes a b (\<lambda>i. False) (\<lambda>i. None) n c = Some y"
    and body: "(if state c = CUBEB_STATE_STARTED
          then case oss_io_iter fp env c of
                 None \<Rightarrow> None
               | Some (Inl t) \<Rightarrow> Some (Inl t)
               | Some (Inr c) \<Rightarrow> loop fp env c
          else Some (Inr c)) = Some y"
  show "\<exists>n. oss_io_passes fp env (\<lambda>i. False) (\<lambda>i. None) n c = Some y"
  proof (cases "state c = CUBEB_STATE_STARTED")
    case False
    with body have "oss_io_passes fp env (\<lambda>i. False) (\<lambda>i. None) 0 c = Some y" by simp
    then show ?thesis ..
  next
    case True
    show ?thesis
    proof (cases "oss_io_iter fp env c")
      case None
      with body True show ?thesis by simp
    next
      case (Some r)
      show ?thesis
      proof (cases r)
        case (Inl t)
        with body True Some
        have "oss_io_passes fp env (\<lambda>i. False) (\<lambda>i. None) (Suc 0) c = Some y"
          by (auto simp: control_calls_none)
        then show ?thesis ..
      next
        case (Inr c')
        with body True Some have "loop fp env c' = Some y" by simp
        from IH [OF this] obtain n where
          "oss_io_passes fp env (\<lambda>i. False) (\<lambda>i. None) n c' = Some y" ..
        with True Some Inr
        have "oss_io_passes fp env (\<lambda>i. False) (\<lambda>i. None) (Suc n) c = Some y"
          by (simp add: control_calls_none)
        then show ?thesis ..
      qed
    qed
  qed
qed

text \<open>
  C10. The input samples delivered to the data callback do not depend on the volume. Take
  two runs of the I/O thread that differ in the volume they start with and in the volumes
  that \<^verbatim>\<open>oss_stream_set_volume\<close> sets between their passes, and are stopped at the same
  passes. After any number of passes, the input buffers that the data callback has been
  given, the buffer it would be given next, the record buffer and the state are the same
  in both, and one run has come that far (or has trapped, with the same trap) exactly when
  the other has. The same holds from any two contexts that differ in the volume and in
  the content of the play buffer only, and for two complete runs of \<^verbatim>\<open>oss_io_routine\<close>.
\<close>

theorem oss_io_routine_record_volume:
  "(sans_volume c1 = sans_volume c2 \<longrightarrow>
      map_option (map_sum id (record_view fp)) (oss_io_passes fp env stops sets1 n c1)
        = map_option (map_sum id (record_view fp)) (oss_io_passes fp env stops sets2 n c2))
   \<and> map_option (map_sum id (record_view fp))
        (oss_io_passes fp env stops sets1 n (io_start (s\<lparr>volume := v1\<rparr>)))
      = map_option (map_sum id (record_view fp))
          (oss_io_passes fp env stops sets2 n (io_start (s\<lparr>volume := v2\<rparr>)))
   \<and> map_option (map_sum id (record_view fp)) (oss_io_routine fp env (s\<lparr>volume := v1\<rparr>))
      = map_option (map_sum id (record_view fp)) (oss_io_routine fp env (s\<lparr>volume := v2\<rparr>))"
proof (intro conjI impI)
  assume "sans_volume c1 = sans_volume c2"
  from view_of_sans_volume [OF oss_io_passes_sans_volume [OF this]]
  show "map_option (map_sum id (record_view fp)) (oss_io_passes fp env stops sets1 n c1)
          = map_option (map_sum id (record_view fp)) (oss_io_passes fp env stops sets2 n c2)" .
next
  have eq: "sans_volume (io_start (s\<lparr>volume := v1\<rparr>)) = sans_volume (io_start (s\<lparr>volume := v2\<rparr>))"
    by (simp add: sans_volume_def io_start_def)
  from view_of_sans_volume [OF oss_io_passes_sans_volume [OF eq]]
  show "map_option (map_sum id (record_view fp))
          (oss_io_passes fp env stops sets1 n (io_start (s\<lparr>volume := v1\<rparr>)))
        = map_option (map_sum id (record_view fp))
            (oss_io_passes fp env stops sets2 n (io_start (s\<lparr>volume := v2\<rparr>)))" .
  from view_of_sans_volume [OF oss_io_run_sans_volume [OF eq]]
  show "map_option (map_sum id (record_view fp)) (oss_io_routine fp env (s\<lparr>volume := v1\<rparr>))
          = map_option (map_sum id (record_view fp)) (oss_io_routine fp env (s\<lparr>volume := v2\<rparr>))"
    unfolding oss_io_routine_def .
qed

lemma set_volume_quarter:
  "oss_stream_set_volume s 0x3E800000
     = (CUBEB_OK, s\<lparr>volume := 0x3E800000\<rparr>, [MutexLock, MutexUnlock])"
  by (simp add: oss_stream_set_volume_def FLOAT_ONE_def fpu_eval)

lemmas pass_eval = io_eval numeral_3_eq_3 control_calls_def set_volume_quarter
  running_float_stream_def f32_endpoint_def float_env_def record_view_def

lemma run_result:
  assumes "map_option (map_sum id f) w = Some (Inr y)"
  shows "\<exists>c. w = Some (Inr c) \<and> f c = y"
proof (cases w)
  case None
  with assms show ?thesis by simp
next
  case (Some r)
  with assms show ?thesis by (cases r) simp_all
qed

text \<open>
  An instance: the duplex stream of floating samples, run for two passes and stopped at
  the third, once at the volume 1.0 throughout, once from the volume 0.5 with 0.25 set
  before the second pass. The bytes written differ. In both runs the callback is given
  the silence of the new buffer, then the samples 0.5 and -0.5 that \<^verbatim>\<open>oss_linear32_to_float\<close>
  makes of what was read, and the record side ends the same.
\<close>

theorem oss_io_routine_record_volume_witness:
  "sans_volume (io_start (running_float_stream\<lparr>volume := 0x3F800000\<rparr>))
     = sans_volume (io_start (running_float_stream\<lparr>volume := 0x3F000000\<rparr>))
   \<and> map_option (map_sum id (record_view x86_fpu))
       (oss_io_passes x86_fpu float_env (\<lambda>i. 2 \<le> i) (\<lambda>i. None) 3
          (io_start (running_float_stream\<lparr>volume := 0x3F800000\<rparr>)))
     = Some (Inr ([Some [0, 0, 0, 0, 0, 0, 0, 0], Some [0, 0, 0, 0x3F, 0, 0, 0, 0xBF]],
                  Inr (Some [0, 0, 0, 0x3F, 0, 0, 0, 0xBF]),
                  Some [0, 0, 0, 0x40, 0, 0, 0, 0xC0], CUBEB_STATE_STOPPED))
   \<and> map_option (map_sum id (record_view x86_fpu))
       (oss_io_passes x86_fpu float_env (\<lambda>i. 2 \<le> i)
          (\<lambda>i. if i = 1 then Some 0x3E800000 else None) 3
          (io_start (running_float_stream\<lparr>volume := 0x3F000000\<rparr>)))
     = Some (Inr ([Some [0, 0, 0, 0, 0, 0, 0, 0], Some [0, 0, 0, 0x3F, 0, 0, 0, 0xBF]],
                  Inr (Some [0, 0, 0, 0x3F, 0, 0, 0, 0xBF]),
                  Some [0, 0, 0, 0x40, 0, 0, 0, 0xC0], CUBEB_STATE_STOPPED))
   \<and> map_option (map_sum id (\<lambda>c. written (trace c)))
       (oss_io_passes x86_fpu float_env (\<lambda>i. 2 \<le> i) (\<lambda>i. None) 3
          (io_start (running_float_stream\<lparr>volume := 0x3F800000\<rparr>)))
     = Some (Inr [0, 0, 0, 0x40, 1, 0, 0, 0x80, 0, 0, 0, 0x40, 1, 0, 0, 0x80])
   \<and> map_option (map_sum id (\<lambda>c. written (trace c)))
       (oss_io_passes x86_fpu float_env (\<lambda>i. 2 \<le> i)
          (\<lambda>i. if i = 1 then Some 0x3E800000 else None) 3
          (io_start (running_float_stream\<lparr>volume := 0x3F000000\<rparr>)))
     = Some (Inr [0, 0, 0, 0x20, 0, 0, 0, 0xC0, 0, 0, 0, 0x10, 0, 0, 0, 0xE0])"
proof -
  let ?c1 = "io_start (running_float_stream\<lparr>volume := 0x3F800000\<rparr>)"
  let ?c2 = "io_start (running_float_stream\<lparr>volume := 0x3F000000\<rparr>)"
  let ?sets = "\<lambda>i :: nat. if i = 1 then Some (0x3E800000 :: float32) else None"
  let ?run1 = "oss_io_passes x86_fpu float_env (\<lambda>i. 2 \<le> i) (\<lambda>i. None) 3 ?c1"
  let ?run2 = "oss_io_passes x86_fpu float_env (\<lambda>i. 2 \<le> i) ?sets 3 ?c2"
  let ?view = "([Some [0, 0, 0, 0, 0, 0, 0, 0], Some [0, 0, 0, 0x3F, 0, 0, 0, 0xBF]],
                Inr (Some [0, 0, 0, 0x3F, 0, 0, 0, 0xBF]),
                Some [0, 0, 0, 0x40, 0, 0, 0, 0xC0 :: byte], CUBEB_STATE_STOPPED)"
  have h: "sans_volume ?c1 = sans_volume ?c2"
    by (simp add: sans_volume_def io_start_def)
  have "map_option (map_sum id (\<lambda>c. (record_view x86_fpu c, written (trace c)))) ?run1
          = Some (Inr (?view, [0, 0, 0, 0x40, 1, 0, 0, 0x80, 0, 0, 0, 0x40, 1, 0, 0, 0x80]))"
    apply (simp add: pass_eval)
    apply (simp_all add: x86_fpu_def fpu_eval)
    done
  from run_result [OF this] obtain c where
    "?run1 = Some (Inr c)" "record_view x86_fpu c = ?view"
    "written (trace c) = [0, 0, 0, 0x40, 1, 0, 0, 0x80, 0, 0, 0, 0x40, 1, 0, 0, 0x80]"
    by auto
  then have v1: "map_option (map_sum id (record_view x86_fpu)) ?run1 = Some (Inr ?view)"
    and w1: "map_option (map_sum id (\<lambda>c. written (trace c))) ?run1
               = Some (Inr [0, 0, 0, 0x40, 1, 0, 0, 0x80, 0, 0, 0, 0x40, 1, 0, 0, 0x80])"
    by simp_all
  have w2: "map_option (map_sum id (\<lambda>c. written (trace c))) ?run2
              = Some (Inr [0, 0, 0, 0x20, 0, 0, 0, 0xC0, 0, 0, 0, 0x10, 0, 0, 0, 0xE0])"
    apply (simp add: pass_eval)
    apply (simp_all add: x86_fpu_def fpu_eval)
    done
  from oss_io_routine_record_volume
    [where fp = x86_fpu and env = float_env and stops = "\<lambda>i. 2 \<le> i"
       and ?sets1.0 = "\<lambda>i. None" and ?sets2.0 = ?sets and n = 3 and ?c1.0 = ?c1 and ?c2.0 = ?c2]
    h
  have "map_option (map_sum id (record_view x86_fpu)) ?run1
          = map_option (map_sum id (record_view x86_fpu)) ?run2"
    by (simp only:)
  with v1 have v2: "map_option (map_sum id (record_view x86_fpu)) ?run2 = Some (Inr ?view)"
    by simp
  from h v1 v2 w1 w2 show ?thesis
    by (intro conjI)
qed

end
